theory Spec2Isabelle
  imports Main "HOL-Library.Word" "HOL-Library.Multiset" "HOL-Library.Sublist"
begin

unbundle bit_operations_syntax

section \<open>Data model of dirtree.c\<close>

text \<open>
  The repository holds the program twice: \<^verbatim>\<open>src/dirtree.c\<close> and \<^verbatim>\<open>src/src/dirtree.c\<close>.
  The two files agree on every function but \<^verbatim>\<open>processDir\<close> (and on the order of
  the \<^verbatim>\<open>case\<close> labels of \<^verbatim>\<open>print_errno\<close>, which does not change what it does).
  The integer types are those of an LP64 platform: \<^verbatim>\<open>unsigned int\<close> and
  \<^verbatim>\<open>mode_t\<close> are 32-bit words, \<^verbatim>\<open>unsigned long long\<close>, \<^verbatim>\<open>off_t\<close> and
  \<^verbatim>\<open>blkcnt_t\<close> are 64-bit words. A C string is the list of its bytes before the
  terminating NUL.
\<close>

definition MAX_DIR :: nat where
  "MAX_DIR = 64"

definition F_TREE :: "32 word" where
  "F_TREE = 0x1"

definition F_SUMMARY :: "32 word" where
  "F_SUMMARY = 0x2"

definition F_VERBOSE :: "32 word" where
  "F_VERBOSE = 0x4"

text \<open>\<^verbatim>\<open>struct summary\<close>; the field \<^verbatim>\<open>size\<close> is \<open>size_total\<close> here.\<close>

record summary =
  dirs :: "32 word"
  files :: "32 word"
  links :: "32 word"
  fifos :: "32 word"
  socks :: "32 word"
  size_total :: "64 word"
  blocks :: "64 word"

text \<open>The fields of \<^verbatim>\<open>struct stat\<close> and \<^verbatim>\<open>struct dirent\<close> that the program reads.\<close>

record stat =
  st_mode :: "32 word"
  st_uid :: "32 word"
  st_gid :: "32 word"
  st_size :: "64 word"
  st_blocks :: "64 word"

record dirent =
  d_name :: string
  d_type :: "8 word"

subsection \<open>Constants and macros of the system headers\<close>

text \<open>
  The values are those of Linux (\<^verbatim>\<open>sys/stat.h\<close>, \<^verbatim>\<open>dirent.h\<close>, \<^verbatim>\<open>errno.h\<close>,
  \<^verbatim>\<open>stdlib.h\<close>). A file-type macro of C yields 1 or 0; here it yields a truth value and
  the caller converts it with \<open>of_bool\<close>.
\<close>

definition DT_DIR :: "8 word" where
  "DT_DIR = 4"

definition S_IFMT :: "32 word" where
  "S_IFMT = 0xF000"

definition S_IFIFO :: "32 word" where
  "S_IFIFO = 0x1000"

definition S_IFCHR :: "32 word" where
  "S_IFCHR = 0x2000"

definition S_IFDIR :: "32 word" where
  "S_IFDIR = 0x4000"

definition S_IFBLK :: "32 word" where
  "S_IFBLK = 0x6000"

definition S_IFREG :: "32 word" where
  "S_IFREG = 0x8000"

definition S_IFLNK :: "32 word" where
  "S_IFLNK = 0xA000"

definition S_IFSOCK :: "32 word" where
  "S_IFSOCK = 0xC000"

definition S_ISREG :: "32 word \<Rightarrow> bool" where
  "S_ISREG m \<longleftrightarrow> m AND S_IFMT = S_IFREG"

definition S_ISDIR :: "32 word \<Rightarrow> bool" where
  "S_ISDIR m \<longleftrightarrow> m AND S_IFMT = S_IFDIR"

definition S_ISCHR :: "32 word \<Rightarrow> bool" where
  "S_ISCHR m \<longleftrightarrow> m AND S_IFMT = S_IFCHR"

definition S_ISLNK :: "32 word \<Rightarrow> bool" where
  "S_ISLNK m \<longleftrightarrow> m AND S_IFMT = S_IFLNK"

definition S_ISFIFO :: "32 word \<Rightarrow> bool" where
  "S_ISFIFO m \<longleftrightarrow> m AND S_IFMT = S_IFIFO"

definition S_ISBLK :: "32 word \<Rightarrow> bool" where
  "S_ISBLK m \<longleftrightarrow> m AND S_IFMT = S_IFBLK"

definition S_ISSOCK :: "32 word \<Rightarrow> bool" where
  "S_ISSOCK m \<longleftrightarrow> m AND S_IFMT = S_IFSOCK"

definition ENOENT :: int where
  "ENOENT = 2"

definition ENOMEM :: int where
  "ENOMEM = 12"

definition EACCES :: int where
  "EACCES = 13"

definition ENOTDIR :: int where
  "ENOTDIR = 20"

definition EXIT_SUCCESS :: int where
  "EXIT_SUCCESS = 0"

definition EXIT_FAILURE :: int where
  "EXIT_FAILURE = 1"

subsection \<open>Functions of the C library\<close>

text \<open>
  \<^verbatim>\<open>strcmp\<close> compares byte by byte, the bytes read as \<^verbatim>\<open>unsigned char\<close>; the end
  of a string (its NUL) is below every byte. The C standard fixes the sign of the result
  only, and so do the theorems below.
\<close>

fun strcmp :: "string \<Rightarrow> string \<Rightarrow> int" where
  "strcmp [] [] = 0"
| "strcmp [] (y # ys) = - 1"
| "strcmp (x # xs) [] = 1"
| "strcmp (x # xs) (y # ys) =
     (if x = y then strcmp xs ys
      else if (of_char x :: nat) < of_char y then - 1 else 1)"

text \<open>
  \<^verbatim>\<open>qsort\<close> leaves the array sorted by the comparator. The C library does not say how;
  insertion from the right is the instance used here. When no two entries of the
  directory have the same name, every way of sorting gives the same array
  (\<open>qsort_result_unique\<close> below).
\<close>

fun qsort_insert :: "('a \<Rightarrow> 'a \<Rightarrow> int) \<Rightarrow> 'a \<Rightarrow> 'a list \<Rightarrow> 'a list" where
  "qsort_insert compar x [] = [x]"
| "qsort_insert compar x (y # ys) =
     (if compar x y \<le> 0 then x # y # ys else y # qsort_insert compar x ys)"

definition qsort :: "('a \<Rightarrow> 'a \<Rightarrow> int) \<Rightarrow> 'a list \<Rightarrow> 'a list" where
  "qsort compar base = foldr (qsort_insert compar) base []"

text \<open>
  The conversions of \<^verbatim>\<open>printf\<close> that the program uses: a string with a minimal width
  and an optional precision (\<^verbatim>\<open>%-54s\<close>, \<^verbatim>\<open>%-51.51s\<close>, \<^verbatim>\<open>%8s\<close>), and decimal numbers.
\<close>

definition fmt_s_left :: "nat \<Rightarrow> nat option \<Rightarrow> string \<Rightarrow> string" where
  "fmt_s_left width precision s =
     (let t = (case precision of None \<Rightarrow> s | Some p \<Rightarrow> take p s)
      in t @ replicate (width - length t) CHR '' '')"

definition fmt_right :: "nat \<Rightarrow> string \<Rightarrow> string" where
  "fmt_right width s = replicate (width - length s) CHR '' '' @ s"

fun dec_nat :: "nat \<Rightarrow> string" where
  "dec_nat n =
     (if n < 10 then [char_of (48 + n)]
      else dec_nat (n div 10) @ [char_of (48 + n mod 10)])"

declare dec_nat.simps [simp del]

definition dec_int :: "int \<Rightarrow> string" where
  "dec_int i = (if i < 0 then CHR ''-'' # dec_nat (nat (- i)) else dec_nat (nat i))"

section \<open>The comparator and the tree renderer\<close>

text \<open>\<^verbatim>\<open>dirent_compare\<close>, the comparator handed to \<^verbatim>\<open>qsort\<close>.\<close>

definition dirent_compare :: "dirent \<Rightarrow> dirent \<Rightarrow> int" where
  "dirent_compare e1 e2 =
     (if d_type e1 \<noteq> d_type e2 \<and> d_type e1 = DT_DIR then - 1
      else if d_type e1 \<noteq> d_type e2 \<and> d_type e2 = DT_DIR then 1
      else strcmp (d_name e1) (d_name e2))"

text \<open>
  \<^verbatim>\<open>gen_tree_shape\<close>. In tree mode the buffer \<open>result\<close> holds \<open>len + 2\<close> bytes before
  its terminator: the copy of \<open>pstr\<close> and two bytes that are written last. The writes
  are the indexed writes of the source, in its order.
\<close>

definition gen_tree_shape :: "bool \<Rightarrow> 32 word \<Rightarrow> string \<Rightarrow> string" where
  "gen_tree_shape is_last flags pstr =
     (let len = length pstr in
      if flags AND F_TREE \<noteq> 0 then
        (let result = pstr @ [CHR 0x00, CHR 0x00];
             result = (if len > 1
                       then (if result ! (len - 2) = CHR 0x60
                             then result[len - 2 := CHR '' ''] else result)
                              [len - 1 := CHR '' '']
                       else result);
             result = result[len := (if is_last then CHR 0x60 else CHR ''|'')];
             result = result[len + 1 := CHR ''-'']
         in result)
      else pstr @ ''  '')"

text \<open>
  The name column of an entry's line (the \<^verbatim>\<open>printf\<close> of \<^verbatim>\<open>final_pstr\<close> in
  \<^verbatim>\<open>processDir\<close>): \<^verbatim>\<open>%-51.51s...\<close> in verbose mode when the string is longer than
  54 bytes, \<^verbatim>\<open>%-54s\<close> otherwise.
\<close>

definition name_column :: "32 word \<Rightarrow> string \<Rightarrow> string" where
  "name_column flags final_pstr =
     (if flags AND F_VERBOSE \<noteq> 0 \<and> length final_pstr > 54
      then fmt_s_left 51 (Some 51) final_pstr @ ''...''
      else fmt_s_left 54 None final_pstr)"

section \<open>The statistics aggregator\<close>

text \<open>\<^verbatim>\<open>update_stats\<close>; every \<^verbatim>\<open>+=\<close> is an addition of machine words.\<close>

definition update_stats :: "summary \<Rightarrow> stat \<Rightarrow> summary" where
  "update_stats stats i_stat =
     stats\<lparr>files := files stats + of_bool (S_ISREG (st_mode i_stat)),
           dirs := dirs stats + of_bool (S_ISDIR (st_mode i_stat)),
           links := links stats + of_bool (S_ISLNK (st_mode i_stat)),
           fifos := fifos stats + of_bool (S_ISFIFO (st_mode i_stat)),
           socks := socks stats + of_bool (S_ISSOCK (st_mode i_stat)),
           size_total := size_total stats + st_size i_stat,
           blocks := blocks stats + st_blocks i_stat\<rparr>"

section \<open>Output, failures and the environment\<close>

text \<open>
  What the program writes is kept as the list of its output calls, in the order of the
  calls, each with the arguments it was given; \<open>channel_of\<close> and \<open>text_of\<close> below
  give the stream and the bytes of a call.
\<close>

datatype event =
    Name_column "32 word" string string
  | Verbose_columns string string "64 word" "64 word" char
  | End_of_line
  | Error_line string int
  | Error_code int
  | Panic_message string
  | Perror int
  | Option_error string
  | Blank_lines
  | Usage string
  | Ignored_root string
  | Header_line "32 word"
  | Rule_line
  | Root_name string
  | Root_summary "32 word" summary
  | Total_counts int summary
  | Total_sizes summary

datatype channel = Stdout | Stderr

text \<open>
  A run of the program ends in \<^verbatim>\<open>exit(EXIT_FAILURE)\<close> (\<^verbatim>\<open>panic\<close> and \<^verbatim>\<open>syntax\<close>),
  or in undefined behaviour: \<^verbatim>\<open>readdir\<close> on the null stream of a failed
  \<^verbatim>\<open>opendir\<close>, or the read of \<^verbatim>\<open>dn[strlen(dn)-1]\<close> for an empty \<^verbatim>\<open>dn\<close>.
  A computation yields the events it wrote and either a fault or its result.
  Memory allocation is taken to succeed: the branches that call
  \<^verbatim>\<open>panic("Out of memory.")\<close> after \<^verbatim>\<open>malloc\<close>, \<^verbatim>\<open>realloc\<close>, \<^verbatim>\<open>strdup\<close> and
  \<^verbatim>\<open>asprintf\<close> are not part of the model.
\<close>

datatype fault = Exit_failure | Null_dir_stream | Read_before_string

type_synonym 'a run = "event list \<times> (fault + 'a)"

definition yield :: "'a \<Rightarrow> 'a run" where
  "yield a = ([], Inr a)"

definition emit :: "event list \<Rightarrow> unit run" where
  "emit evs = (evs, Inr ())"

definition and_then :: "'a run \<Rightarrow> ('a \<Rightarrow> 'b run) \<Rightarrow> 'b run" where
  "and_then m f =
     (case m of
        (evs, Inl x) \<Rightarrow> (evs, Inl x)
      | (evs, Inr a) \<Rightarrow> (case f a of (evs', r) \<Rightarrow> (evs @ evs', r)))"

text \<open>
  The file system as the program sees it. Below an opened directory it is a finite tree:
  \<^verbatim>\<open>readdir\<close> yields the entries of \<open>Opened\<close> in their order (the entries \<^verbatim>\<open>.\<close> and
  \<^verbatim>\<open>..\<close> among them) and then NULL, with \<^verbatim>\<open>errno\<close> set to the second argument (0 at
  the regular end of the directory). Every entry carries what the system answers for its
  path: \<open>lstat_errno\<close> is 0 when \<^verbatim>\<open>lstat\<close> succeeds and the error it sets otherwise,
  \<open>i_stat\<close> is the content of the buffer \<^verbatim>\<open>i_stat\<close> after the call (the program never
  looks at the return value of \<^verbatim>\<open>lstat\<close>; after a failed call the buffer holds what it
  held before), and \<open>subdir\<close> is the answer of \<^verbatim>\<open>opendir\<close>: \<open>Open_fails e\<close> with the
  error \<open>e\<close>, or the stream. The path strings that \<^verbatim>\<open>processDir\<close> builds only select
  these answers. A call of the C library that succeeds leaves \<^verbatim>\<open>errno\<close> as it is.
\<close>

datatype node = Node (dent: dirent) (lstat_errno: int) (i_stat: stat) (subdir: opened)
  and opened = Open_fails int | Opened "node list" int

record env =
  getpwuid :: "32 word \<Rightarrow> string option"
  getgrgid :: "32 word \<Rightarrow> string option"
  strerror :: "int \<Rightarrow> string"
  opendir :: "string \<Rightarrow> opened"

section \<open>The traversal engine\<close>

text \<open>\<^verbatim>\<open>panic\<close>: the message goes to the error stream and the process exits.\<close>

definition panic :: "string \<Rightarrow> 'a run" where
  "panic msg = ([Panic_message msg], Inl Exit_failure)"

text \<open>
  \<^verbatim>\<open>getNext\<close> on a stream whose remaining entries are \<open>stream\<close>: the events written,
  the entry returned (\<open>None\<close> for NULL), the entries that remain and \<^verbatim>\<open>errno\<close> after
  the call.
\<close>

fun getNext :: "node list \<Rightarrow> int \<Rightarrow> event list \<times> node option \<times> node list \<times> int" where
  "getNext [] e_end = ((if e_end \<noteq> 0 then [Perror e_end] else []), None, [], e_end)"
| "getNext (next # stream) e_end =
     (if d_name (dent next) = ''.'' \<or> d_name (dent next) = ''..''
      then getNext stream e_end
      else ([], Some next, stream, 0))"

text \<open>The loop of \<^verbatim>\<open>processDir\<close> that fills the array \<^verbatim>\<open>dirents\<close>.\<close>

function read_dirents :: "node list \<Rightarrow> int \<Rightarrow> event list \<times> node list \<times> int" where
  "read_dirents stream e_end =
     (case getNext stream e_end of
        (evs, None, _, errno) \<Rightarrow> (evs, [], errno)
      | (evs, Some getnext_result, rest, _) \<Rightarrow>
          (case read_dirents rest e_end of
             (evs', dirents, errno) \<Rightarrow> (evs @ evs', getnext_result # dirents, errno)))"
  by pat_completeness auto
termination
proof (relation "measure (\<lambda>(stream, e_end). length stream)")
  show "wf (measure (\<lambda>(stream, e_end). length stream))"
    by simp
next
  fix stream :: "node list" and e_end x xa y xb ya x2 xc yb
  assume "(x, y) = getNext stream e_end" and "(xa, ya) = y" and "xa = Some x2"
    and "(xc, yb) = ya"
  then have g: "getNext stream e_end = (x, Some x2, xc, yb)"
    by simp
  have "\<And>evs f rest e. getNext stream e_end = (evs, Some f, rest, e) \<Longrightarrow>
          length rest < length stream"
    by (induction stream) (auto split: if_splits)
  with g show "((xc, e_end), stream, e_end) \<in> measure (\<lambda>(stream, e_end). length stream)"
    by simp
qed

declare read_dirents.simps [simp del]

definition print_verbose :: "env \<Rightarrow> stat \<Rightarrow> unit run" where
  "print_verbose env stat =
     (case (getpwuid env (st_uid stat), getgrgid env (st_gid stat)) of
        (Some user, Some grp) \<Rightarrow>
          emit [Verbose_columns user grp (st_size stat) (st_blocks stat)
                 (if S_ISREG (st_mode stat) then CHR '' ''
                  else if S_ISDIR (st_mode stat) then CHR ''d''
                  else if S_ISCHR (st_mode stat) then CHR ''c''
                  else if S_ISLNK (st_mode stat) then CHR ''l''
                  else if S_ISFIFO (st_mode stat) then CHR ''f''
                  else if S_ISBLK (st_mode stat) then CHR ''b''
                  else if S_ISSOCK (st_mode stat) then CHR ''s''
                  else CHR 0x00)]
      | _ \<Rightarrow> panic (CHR 0x0A # ''Error on getpwuid /getgrgid.''))"

text \<open>\<^verbatim>\<open>print_errno\<close>, with the value of \<^verbatim>\<open>errno\<close> it reads.\<close>

definition print_errno :: "string \<Rightarrow> 32 word \<Rightarrow> int \<Rightarrow> unit run" where
  "print_errno pstr flags errno =
     (let error_pstr = gen_tree_shape True flags pstr in
      if errno = EACCES \<or> errno = ENOENT \<or> errno = ENOTDIR then emit [Error_line error_pstr errno]
      else if errno = ENOMEM then panic ''Out of memory.''
      else and_then (emit [Error_code errno]) (\<lambda>_. panic ''quit process''))"

text \<open>The two files of the repository.\<close>

datatype variant = Src_dirtree | Src_src_dirtree

definition compare_files :: "node \<Rightarrow> node \<Rightarrow> int" where
  "compare_files a b = dirent_compare (dent a) (dent b)"

text \<open>
  \<^verbatim>\<open>processDir\<close> on the answer of \<^verbatim>\<open>opendir(dn)\<close>, with the value of \<^verbatim>\<open>errno\<close>
  before the call; it yields the summary and \<^verbatim>\<open>errno\<close> after it. When
  \<^verbatim>\<open>opendir\<close> fails, \<^verbatim>\<open>src/src/dirtree.c\<close> prints the error and returns;
  \<^verbatim>\<open>src/dirtree.c\<close> has no test of the stream: it prints the error (\<^verbatim>\<open>errno\<close> is not
  0) and goes on to \<^verbatim>\<open>getNext(dir)\<close> with the null stream. \<open>processEntries\<close> is the
  \<^verbatim>\<open>for\<close> loop over the sorted array, from the entry with index \<open>i\<close> on; the entry is
  the last one (\<^verbatim>\<open>i == num - 1\<close>) when no entry follows it.
\<close>

function processDir ::
    "variant \<Rightarrow> env \<Rightarrow> 32 word \<Rightarrow> string \<Rightarrow> summary \<Rightarrow> int \<Rightarrow> opened \<Rightarrow> (summary \<times> int) run"
  and processEntries ::
    "variant \<Rightarrow> env \<Rightarrow> 32 word \<Rightarrow> string \<Rightarrow> summary \<Rightarrow> int \<Rightarrow> node list \<Rightarrow> (summary \<times> int) run"
where
  "processDir v env flags pstr stats errno (Open_fails e) =
     (case v of
        Src_src_dirtree \<Rightarrow> and_then (print_errno pstr flags e) (\<lambda>_. yield (stats, e))
      | Src_dirtree \<Rightarrow>
          and_then (if e \<noteq> 0 then print_errno pstr flags e else yield ())
            (\<lambda>_. ([], Inl Null_dir_stream)))"
| "processDir v env flags pstr stats errno (Opened stream e_end) =
     and_then (if errno \<noteq> 0 then print_errno pstr flags errno else yield ())
       (\<lambda>_. let r = read_dirents stream e_end in
            and_then (emit (fst r))
              (\<lambda>_. processEntries v env flags pstr stats (snd (snd r))
                     (qsort compare_files (fst (snd r)))))"
| "processEntries v env flags pstr stats errno [] = yield (stats, errno)"
| "processEntries v env flags pstr stats errno (entry # entries) =
     (let errno1 = (if lstat_errno entry \<noteq> 0 then lstat_errno entry else errno);
          next_pstr = gen_tree_shape (entries = []) flags pstr
      in and_then (emit [Name_column flags next_pstr (d_name (dent entry))])
           (\<lambda>_. and_then (if flags AND F_VERBOSE \<noteq> 0 then print_verbose env (i_stat entry)
                          else yield ())
           (\<lambda>_. and_then (emit [End_of_line])
           (\<lambda>_. and_then
                  (if S_ISDIR (st_mode (i_stat entry))
                   then processDir v env flags next_pstr (update_stats stats (i_stat entry))
                          errno1 (subdir entry)
                   else yield (update_stats stats (i_stat entry), errno1))
           (\<lambda>(stats', errno').
               processEntries v env flags pstr stats' errno' entries)))))"
  by pat_completeness auto
termination
proof (relation "measure (\<lambda>x. case x of
          Inl (v, env, flags, pstr, stats, errno, dir) \<Rightarrow> size dir
        | Inr (v, env, flags, pstr, stats, errno, entries) \<Rightarrow> size_list size entries)",
    goal_cases)
  case 1
  show ?case by simp
next
  case (2 v env flags pstr stats errno stream e_end x xa)
  have ins: "size_list size (qsort_insert c x xs) = size_list size (x # xs)"
    for c and x :: node and xs
    by (induction xs) auto
  have srt: "size_list size (qsort c xs) = size_list size xs" for c and xs :: "node list"
    by (induction xs) (auto simp: qsort_def ins)
  have gn: "getNext s e0 = (evs, Some f, rest, e) \<Longrightarrow>
              size f + size_list size rest < size_list size s" for s e0 evs f rest e
    by (induction s) (auto split: if_splits)
  have "size_list size (fst (snd (read_dirents stream e_end))) \<le> size_list size stream"
  proof (induction stream e_end rule: read_dirents.induct)
    case (1 stream e_end)
    show ?case
    proof (cases "getNext stream e_end")
      case (fields evs nxt rest e)
      show ?thesis
      proof (cases nxt)
        case None
        with fields show ?thesis
          by (simp add: read_dirents.simps [of stream])
      next
        case (Some f)
        with fields have "size_list size (fst (snd (read_dirents rest e_end)))
            \<le> size_list size rest"
          using "1.IH" by simp
        moreover have "size f + size_list size rest < size_list size stream"
          using gn fields Some by simp
        ultimately show ?thesis
          using fields Some
          by (auto simp: read_dirents.simps [of stream] split: prod.splits)
      qed
    qed
  qed
  with 2 show ?case
    by (simp add: srt le_imp_less_Suc)
next
  case (3 v env flags pstr stats errno entry entries x xa)
  then show ?case
    by (cases entry) simp
next
  case 4
  then show ?case by simp
qed

section \<open>The driver\<close>

text \<open>
  \<^verbatim>\<open>basename\<close> is the GNU one (\<^verbatim>\<open>string.h\<close> under \<^verbatim>\<open>_GNU_SOURCE\<close>): the part after
  the last slash.
\<close>

definition basename :: "string \<Rightarrow> string" where
  "basename path = rev (takeWhile (\<lambda>c. c \<noteq> CHR ''/'') (rev path))"

text \<open>
  \<^verbatim>\<open>syntax\<close>; \<open>error\<close> is the formatted error message, \<open>None\<close> for NULL. It does not
  return.
\<close>

definition syntax_exit :: "string \<Rightarrow> string option \<Rightarrow> 'a run" where
  "syntax_exit argv0 error =
     ((case error of None \<Rightarrow> [] | Some msg \<Rightarrow> [Option_error msg, Blank_lines]) @ [Usage argv0],
      Inl Exit_failure)"

text \<open>
  The loop of \<^verbatim>\<open>main\<close> over \<^verbatim>\<open>argv[1]\<close>, ..., \<^verbatim>\<open>argv[argc - 1]\<close>; \<open>directories\<close>
  holds the \<open>ndir\<close> roots stored so far. The first byte of an empty argument is its NUL.
\<close>

fun parse_args :: "string \<Rightarrow> string list \<Rightarrow> 32 word \<Rightarrow> string list \<Rightarrow> (32 word \<times> string list) run" where
  "parse_args argv0 [] flags directories = yield (flags, directories)"
| "parse_args argv0 (arg # args) flags directories =
     (if take 1 arg = ''-'' then
        (if arg = ''-t'' then parse_args argv0 args (flags OR F_TREE) directories
         else if arg = ''-s'' then parse_args argv0 args (flags OR F_SUMMARY) directories
         else if arg = ''-v'' then parse_args argv0 args (flags OR F_VERBOSE) directories
         else if arg = ''-h'' then syntax_exit argv0 None
         else syntax_exit argv0
                (Some (''Unrecognized option '' @ [CHR 0x27] @ arg @ [CHR 0x27] @ ''.'')))
      else if length directories < MAX_DIR
      then parse_args argv0 args flags (directories @ [arg])
      else and_then (emit [Ignored_root arg])
             (\<lambda>_. parse_args argv0 args flags directories))"

text \<open>
  The first statements of \<^verbatim>\<open>processDir\<close> for a root: the path gets a trailing slash
  unless it has one, and \<^verbatim>\<open>opendir\<close> answers for it. For the empty path the test
  reads the byte before the string. (Below a root every path that \<^verbatim>\<open>processDir\<close>
  receives ends in a slash.)
\<close>

definition processRoot ::
    "variant \<Rightarrow> env \<Rightarrow> 32 word \<Rightarrow> string \<Rightarrow> summary \<Rightarrow> int \<Rightarrow> (summary \<times> int) run" where
  "processRoot v env flags dn stats errno =
     (if dn = [] then ([], Inl Read_before_string)
      else processDir v env flags [] stats errno
             (opendir env (if last dn \<noteq> CHR ''/'' then dn @ ''/'' else dn)))"

definition zero_summary :: summary where
  "zero_summary = \<lparr>dirs = 0, files = 0, links = 0, fifos = 0, socks = 0,
                    size_total = 0, blocks = 0\<rparr>"

text \<open>The additions to \<^verbatim>\<open>tstat\<close> at the end of the loop body of \<^verbatim>\<open>main\<close>.\<close>

definition add_summary :: "summary \<Rightarrow> summary \<Rightarrow> summary" where
  "add_summary tstat dstat =
     tstat\<lparr>blocks := blocks tstat + blocks dstat,
           size_total := size_total tstat + size_total dstat,
           files := files tstat + files dstat,
           dirs := dirs tstat + dirs dstat,
           links := links tstat + links dstat,
           fifos := fifos tstat + fifos dstat,
           socks := socks tstat + socks dstat\<rparr>"

text \<open>The loop of \<^verbatim>\<open>main\<close> over the roots; it yields \<^verbatim>\<open>tstat\<close> and \<^verbatim>\<open>errno\<close>.\<close>

fun process_roots ::
    "variant \<Rightarrow> env \<Rightarrow> 32 word \<Rightarrow> string list \<Rightarrow> summary \<Rightarrow> int \<Rightarrow> (summary \<times> int) run" where
  "process_roots v env flags [] tstat errno = yield (tstat, errno)"
| "process_roots v env flags (directory # directories) tstat errno =
     and_then (emit ((if flags AND F_SUMMARY \<noteq> 0 then [Header_line flags, Rule_line] else [])
                     @ [Root_name directory]))
       (\<lambda>_. and_then (processRoot v env flags directory zero_summary errno)
       (\<lambda>(dstat, errno').
           if flags AND F_SUMMARY \<noteq> 0
           then and_then (emit [Rule_line, Root_summary flags dstat])
                  (\<lambda>_. process_roots v env flags directories (add_summary tstat dstat) errno')
           else process_roots v env flags directories tstat errno'))"

text \<open>
  \<^verbatim>\<open>main\<close> with \<^verbatim>\<open>argv[0]\<close> and the list of the other arguments; \<open>roots\<close> are the
  root paths that the argument loop stored. \<^verbatim>\<open>errno\<close> is 0 when the program starts.
\<close>

definition main :: "variant \<Rightarrow> env \<Rightarrow> string \<Rightarrow> string list \<Rightarrow> int run" where
  "main v env argv0 args =
     and_then (parse_args argv0 args 0 [])
       (\<lambda>(flags, roots).
          let directories = (if roots = [] then [''.''] else roots);
              ndir = int (length directories)
          in and_then (process_roots v env flags directories zero_summary 0)
               (\<lambda>(tstat, errno).
                  and_then (emit (if flags AND F_SUMMARY \<noteq> 0 \<and> ndir > 1
                                  then Total_counts ndir tstat #
                                       (if flags AND F_VERBOSE \<noteq> 0 then [Total_sizes tstat] else [])
                                  else []))
                    (\<lambda>_. yield EXIT_SUCCESS)))"

section \<open>The text of the output\<close>

definition channel_of :: "event \<Rightarrow> channel" where
  "channel_of ev =
     (case ev of
        Panic_message _ \<Rightarrow> Stderr
      | Perror _ \<Rightarrow> Stderr
      | Option_error _ \<Rightarrow> Stderr
      | Usage _ \<Rightarrow> Stderr
      | _ \<Rightarrow> Stdout)"

definition plural :: "32 word \<Rightarrow> string \<Rightarrow> string \<Rightarrow> string" where
  "plural n one many = dec_nat (unat n) @ '' '' @ (if n = 1 then one else many)"

definition summary_sentence :: "summary \<Rightarrow> string" where
  "summary_sentence dstat =
     plural (files dstat) ''file'' ''files'' @ '', '' @
     plural (dirs dstat) ''directory'' ''directories'' @ '', '' @
     plural (links dstat) ''link'' ''links'' @ '', '' @
     plural (fifos dstat) ''pipe'' ''pipes'' @ '', and '' @
     plural (socks dstat) ''socket'' ''sockets''"

definition usage_text :: "string \<Rightarrow> string" where
  "usage_text argv0 =
     ''Usage '' @ basename argv0 @ '' [-t] [-s] [-v] [-h] [path...]\<newline>'' @
     ''Gather information about directory trees. If no path is given, the current directory\<newline>'' @
     ''is analyzed.\<newline>'' @
     ''\<newline>'' @
     ''Options:\<newline>'' @
     '' -t        print the directory tree (default if no other option specified)\<newline>'' @
     '' -s        print summary of directories (total number of files, total file size, etc)\<newline>'' @
     '' -v        print detailed information for each file. Turns on tree view.\<newline>'' @
     '' -h        print this help\<newline>'' @
     '' path...   list of space-separated paths (max '' @ dec_nat MAX_DIR @
     ''). Default is the current directory.\<newline>''"

text \<open>
  The bytes of an output call. \<^verbatim>\<open>%ld\<close> and \<^verbatim>\<open>%lld\<close> print a 64-bit word as a signed
  number, \<^verbatim>\<open>%d\<close> a 32-bit word as a signed number.
\<close>

definition text_of :: "env \<Rightarrow> event \<Rightarrow> string" where
  "text_of env ev =
     (case ev of
        Name_column flags next_pstr name \<Rightarrow> name_column flags (next_pstr @ name)
      | Verbose_columns user grp sz blks type \<Rightarrow>
          ''  '' @ fmt_right 8 user @ '':'' @ fmt_s_left 8 None grp @ ''  '' @
          fmt_right 10 (dec_int (sint sz)) @ ''  '' @ fmt_right 8 (dec_int (sint blks)) @
          ''  '' @ [type]
      | End_of_line \<Rightarrow> ''\<newline>''
      | Error_line error_pstr errno \<Rightarrow>
          error_pstr @
          (if errno = EACCES then ''ERROR: Permission denied\<newline>''
           else if errno = ENOENT then ''ERROR: No such file or directory\<newline>''
           else ''ERROR: Not a directory\<newline>'')
      | Error_code errno \<Rightarrow> ''ERROR: error code '' @ dec_int errno @ ''\<newline>''
      | Panic_message msg \<Rightarrow> msg @ ''\<newline>''
      | Perror errno \<Rightarrow> strerror env errno @ ''\<newline>''
      | Option_error msg \<Rightarrow> msg
      | Blank_lines \<Rightarrow> ''\<newline>\<newline>''
      | Usage argv0 \<Rightarrow> usage_text argv0
      | Ignored_root arg \<Rightarrow>
          ''Warning: maximum number of directories exceeded, ignoring '' @ [CHR 0x27] @ arg @
          [CHR 0x27] @ ''.\<newline>''
      | Header_line flags \<Rightarrow>
          (if flags AND F_VERBOSE \<noteq> 0
           then ''Name'' @ replicate 56 CHR '' '' @ ''User:Group'' @ replicate 11 CHR '' '' @
                ''Size    Blocks Type \<newline>''
           else ''Name'' @ replicate 96 CHR '' '' @ ''\<newline>'')
      | Rule_line \<Rightarrow> replicate 100 CHR ''-'' @ ''\<newline>''
      | Root_name directory \<Rightarrow> directory @ ''\<newline>''
      | Root_summary flags dstat \<Rightarrow>
          (if flags AND F_VERBOSE \<noteq> 0
           then fmt_s_left 68 (Some 68) (summary_sentence dstat) @ ''   '' @
                fmt_right 14 (dec_int (sint (size_total dstat))) @ '' '' @
                fmt_right 9 (dec_int (sint (blocks dstat))) @ ''\<newline>\<newline>''
           else summary_sentence dstat @ ''\<newline>\<newline>'')
      | Total_counts ndir tstat \<Rightarrow>
          ''Analyzed '' @ dec_int ndir @ '' directories:\<newline>'' @
          ''  total # of files:        '' @ fmt_right 16 (dec_int (sint (files tstat))) @ ''\<newline>'' @
          ''  total # of directories:  '' @ fmt_right 16 (dec_int (sint (dirs tstat))) @ ''\<newline>'' @
          ''  total # of links:        '' @ fmt_right 16 (dec_int (sint (links tstat))) @ ''\<newline>'' @
          ''  total # of pipes:        '' @ fmt_right 16 (dec_int (sint (fifos tstat))) @ ''\<newline>'' @
          ''  total # of sockets:      '' @ fmt_right 16 (dec_int (sint (socks tstat))) @ ''\<newline>''
      | Total_sizes tstat \<Rightarrow>
          ''  total file size:         '' @ fmt_right 16 (dec_nat (unat (size_total tstat))) @ ''\<newline>'' @
          ''  total # of blocks:       '' @ fmt_right 16 (dec_nat (unat (blocks tstat))) @ ''\<newline>'')"

section \<open>Notions used in the properties\<close>

text \<open>The entries of a stream other than \<^verbatim>\<open>.\<close> and \<^verbatim>\<open>..\<close>.\<close>

definition listed :: "node list \<Rightarrow> node list" where
  "listed stream =
     filter (\<lambda>f. d_name (dent f) \<noteq> ''.'' \<and> d_name (dent f) \<noteq> ''..'') stream"

text \<open>
  The entry lines among the events: prefix and name of each, in their order; and the
  names of those whose prefix has a given length.
\<close>

definition rendered :: "event list \<Rightarrow> (string \<times> string) list" where
  "rendered evs =
     concat (map (\<lambda>ev. case ev of Name_column _ next_pstr name \<Rightarrow> [(next_pstr, name)]
                          | _ \<Rightarrow> []) evs)"

definition names_at :: "nat \<Rightarrow> event list \<Rightarrow> string list" where
  "names_at n evs = map snd (filter (\<lambda>(p, name). length p = n) (rendered evs))"

text \<open>
  The entries of the tree below a directory, each with its depth below the directory
  (1 for the entries of the directory itself), in the order directory first, then what
  is below it; the entries of one directory in the order of the sorted array. What is
  below an entry counts when \<^verbatim>\<open>lstat\<close> calls it a directory.
\<close>

function visited :: "opened \<Rightarrow> (nat \<times> node) list"
  and visited_entries :: "node list \<Rightarrow> (nat \<times> node) list" where
  "visited (Open_fails e) = []"
| "visited (Opened stream e_end) = visited_entries (qsort compare_files (listed stream))"
| "visited_entries [] = []"
| "visited_entries (entry # entries) =
     (1, entry) #
     (if S_ISDIR (st_mode (i_stat entry))
      then map (\<lambda>(k, f). (Suc k, f)) (visited (subdir entry)) else []) @
     visited_entries entries"
  by pat_completeness auto
termination
proof (relation "measure (\<lambda>x. case x of
          Inl dir \<Rightarrow> size dir | Inr entries \<Rightarrow> size_list size entries)",
    goal_cases)
  case 1
  show ?case by simp
next
  case (2 stream e_end)
  have ins: "size_list size (qsort_insert c x xs) = size_list size (x # xs)"
    for c and x :: node and xs
    by (induction xs) auto
  have srt: "size_list size (qsort c xs) = size_list size xs" for c and xs :: "node list"
    by (induction xs) (auto simp: qsort_def ins)
  have "size_list size (listed stream) \<le> size_list size stream"
    unfolding listed_def by (induction stream) auto
  then show ?case
    by (simp add: srt le_imp_less_Suc)
next
  case (3 entry entries)
  then show ?case
    by (cases entry) simp
next
  case 4
  then show ?case by simp
qed

text \<open>
  A computation follows a list of expected lines (length of prefix, name): the entry
  lines it writes are a prefix of the list, and the whole list when it returns.
\<close>

definition traces :: "'a run \<Rightarrow> (nat \<times> string) list \<Rightarrow> bool" where
  "traces m expected \<longleftrightarrow>
     prefix (map (\<lambda>(p, n). (length p, n)) (rendered (fst m))) expected \<and>
     (\<forall>r. snd m = Inr r \<longrightarrow> map (\<lambda>(p, n). (length p, n)) (rendered (fst m)) = expected)"

definition expect :: "nat \<Rightarrow> (nat \<times> node) list \<Rightarrow> (nat \<times> string) list" where
  "expect n vs = map (\<lambda>(k, f). (n + 2 * k, d_name (dent f))) vs"

text \<open>The events that \<^verbatim>\<open>processDir\<close> and the functions it calls write.\<close>

definition traversal_event :: "event \<Rightarrow> bool" where
  "traversal_event ev =
     (case ev of
        Name_column _ _ _ \<Rightarrow> True
      | Verbose_columns _ _ _ _ _ \<Rightarrow> True
      | End_of_line \<Rightarrow> True
      | Error_line _ _ \<Rightarrow> True
      | Error_code _ \<Rightarrow> True
      | Panic_message _ \<Rightarrow> True
      | Perror _ \<Rightarrow> True
      | _ \<Rightarrow> False)"

text \<open>
  What the driver wrote, read off the events: the root paths printed, the roots ignored
  with a warning, the summaries of the roots, and the grand total (its first
  \<^verbatim>\<open>printf\<close> with \<^verbatim>\<open>ndir\<close> and the counters, its second with the sizes).
\<close>

definition roots_of :: "event list \<Rightarrow> string list" where
  "roots_of evs =
     concat (map (\<lambda>ev. case ev of Root_name directory \<Rightarrow> [directory] | _ \<Rightarrow> []) evs)"

definition ignored_of :: "event list \<Rightarrow> string list" where
  "ignored_of evs =
     concat (map (\<lambda>ev. case ev of Ignored_root arg \<Rightarrow> [arg] | _ \<Rightarrow> []) evs)"

definition summaries_of :: "event list \<Rightarrow> summary list" where
  "summaries_of evs =
     concat (map (\<lambda>ev. case ev of Root_summary _ dstat \<Rightarrow> [dstat] | _ \<Rightarrow> []) evs)"

definition totals_of :: "event list \<Rightarrow> (int \<times> summary) list" where
  "totals_of evs =
     concat (map (\<lambda>ev. case ev of Total_counts ndir tstat \<Rightarrow> [(ndir, tstat)] | _ \<Rightarrow> []) evs)"

definition sizes_of :: "event list \<Rightarrow> summary list" where
  "sizes_of evs =
     concat (map (\<lambda>ev. case ev of Total_sizes tstat \<Rightarrow> [tstat] | _ \<Rightarrow> []) evs)"

text \<open>The arguments that \<^verbatim>\<open>main\<close> takes as root paths: those that do not start with a dash.\<close>

definition positional :: "string list \<Rightarrow> string list" where
  "positional args = filter (\<lambda>arg. take 1 arg \<noteq> ''-'') args"

text \<open>The bit that \<^verbatim>\<open>main\<close> sets for one of the options \<^verbatim>\<open>-t\<close>, \<^verbatim>\<open>-s\<close> and \<^verbatim>\<open>-v\<close>.\<close>

definition flag_bit :: "string \<Rightarrow> 32 word" where
  "flag_bit arg = (if arg = ''-t'' then F_TREE else if arg = ''-s'' then F_SUMMARY else F_VERBOSE)"

text \<open>The events of the grand total at the end of \<^verbatim>\<open>main\<close>.\<close>

definition totals_events :: "32 word \<Rightarrow> int \<Rightarrow> summary \<Rightarrow> event list" where
  "totals_events flags ndir tstat =
     (if flags AND F_SUMMARY \<noteq> 0 \<and> ndir > 1
      then Total_counts ndir tstat # (if flags AND F_VERBOSE \<noteq> 0 then [Total_sizes tstat] else [])
      else [])"

text \<open>
  A small tree for examples: a directory with the regular file \<^verbatim>\<open>a.txt\<close> (10 bytes,
  8 blocks) and the directory \<^verbatim>\<open>b\<close>, which holds the regular file \<^verbatim>\<open>c\<close>; the path
  \<^verbatim>\<open>r/\<close> opens it and no other path exists.
\<close>

definition sample_stat :: "32 word \<Rightarrow> stat" where
  "sample_stat mode = \<lparr>st_mode = mode, st_uid = 0, st_gid = 0, st_size = 10, st_blocks = 8\<rparr>"

definition sample_entries :: "node list" where
  "sample_entries =
     [Node \<lparr>d_name = ''.'', d_type = 4\<rparr> 0 (sample_stat 0x41ED) (Open_fails 13),
      Node \<lparr>d_name = ''a.txt'', d_type = 8\<rparr> 0 (sample_stat 0x81A4) (Open_fails 20),
      Node \<lparr>d_name = ''b'', d_type = 4\<rparr> 0 (sample_stat 0x41ED)
        (Opened [Node \<lparr>d_name = ''c'', d_type = 8\<rparr> 0 (sample_stat 0x81A4) (Open_fails 20)] 0),
      Node \<lparr>d_name = ''..'', d_type = 4\<rparr> 0 (sample_stat 0x41ED) (Open_fails 13)]"

definition sample_env :: env where
  "sample_env =
     \<lparr>getpwuid = (\<lambda>uid. Some ''root''), getgrgid = (\<lambda>gid. Some ''root''),
      strerror = (\<lambda>e. ''Input/output error''),
      opendir = (\<lambda>path. if path = ''r/'' then Opened sample_entries 0 else Open_fails 2)\<rparr>"

section \<open>Properties of the tree renderer\<close>

lemma two_last_bytes: "1 < length p \<Longrightarrow> \<exists>q a b. p = q @ [a, b]"
proof -
  assume len: "1 < length p"
  then obtain q b where p: "p = q @ [b]"
    by (cases p rule: rev_cases) auto
  with len obtain r a where "q = r @ [a]"
    by (cases q rule: rev_cases) auto
  with p show ?thesis by simp
qed

lemma gen_tree_shape_plain:
  "flags AND F_TREE = 0 \<Longrightarrow> gen_tree_shape is_last flags p = p @ ''  ''"
  by (simp add: gen_tree_shape_def)

lemma gen_tree_shape_short:
  "length p \<le> 1 \<Longrightarrow> flags AND F_TREE \<noteq> 0 \<Longrightarrow>
   gen_tree_shape is_last flags p = p @ [if is_last then CHR 0x60 else CHR ''|'', CHR ''-'']"
  by (simp add: gen_tree_shape_def Let_def list_update_append)

lemma gen_tree_shape_long:
  "flags AND F_TREE \<noteq> 0 \<Longrightarrow>
   gen_tree_shape is_last flags (q @ [a, b]) =
     q @ [if a = CHR 0x60 then CHR '' '' else a, CHR '' '',
          if is_last then CHR 0x60 else CHR ''|'', CHR ''-'']"
  by (simp add: gen_tree_shape_def Let_def list_update_append nth_append)

text \<open>
  Claim C4. For every parent prefix \<open>p\<close>, the child prefix is \<open>p\<close> followed by two
  spaces when the tree flag is off. When it is on, it is \<open>p\<close>, where (only if \<open>p\<close> is
  longer than one byte) the last but one byte is replaced by a space when it is the
  corner glyph (the backquote, byte 0x60) and the last byte is replaced by a space,
  followed by the corner glyph for a last sibling and the continuation glyph \<open>|\<close>
  otherwise, followed by the connector \<open>-\<close>. A prefix of length at most one is copied
  as it is.
\<close>

theorem gen_tree_shape_spec:
  "gen_tree_shape is_last flags p =
     (if flags AND F_TREE = 0 then p @ ''  ''
      else (if length p > 1
            then take (length p - 2) p @
                 [if p ! (length p - 2) = CHR 0x60 then CHR '' '' else p ! (length p - 2),
                  CHR '' '']
            else p) @ [if is_last then CHR 0x60 else CHR ''|'', CHR ''-''])"
proof (cases "flags AND F_TREE = 0")
  case True
  then show ?thesis by (simp add: gen_tree_shape_plain)
next
  case tree: False
  show ?thesis
  proof (cases "1 < length p")
    case True
    then obtain q a b where p: "p = q @ [a, b]"
      using two_last_bytes by blast
    show ?thesis using tree by (simp add: p gen_tree_shape_long nth_append)
  next
    case False
    then show ?thesis using tree by (simp add: gen_tree_shape_short)
  qed
qed

text \<open>
  Claim C5. In verbose mode the name column of every entry line is exactly 54 bytes wide:
  a string of prefix and name that is longer than 54 bytes is cut to its first 51 bytes
  and followed by three dots, and a shorter one is padded with spaces to 54 bytes.
\<close>

theorem name_column_verbose:
  "flags AND F_VERBOSE \<noteq> 0 \<Longrightarrow>
   name_column flags final_pstr =
     (if length final_pstr > 54 then take 51 final_pstr @ ''...''
      else final_pstr @ replicate (54 - length final_pstr) CHR '' '')
   \<and> length (name_column flags final_pstr) = 54"
  by (simp add: name_column_def fmt_s_left_def Let_def)

theorem name_column_verbose_witness:
  "(4 :: 32 word) AND F_VERBOSE \<noteq> 0
   \<and> name_column 4 (replicate 60 CHR ''a'') = replicate 51 CHR ''a'' @ ''...''
   \<and> length (name_column 4 (replicate 60 CHR ''a'')) = 54
   \<and> name_column 4 ''|-b'' = ''|-b'' @ replicate 51 CHR '' ''
   \<and> length (name_column 4 ''|-b'') = 54"
proof -
  have verbose: "(4 :: 32 word) AND F_VERBOSE \<noteq> 0"
    by (simp add: F_VERBOSE_def)
  show ?thesis
    using verbose name_column_verbose [OF verbose, of "replicate 60 CHR ''a''"]
      name_column_verbose [OF verbose, of "''|-b''"]
    by simp
qed

section \<open>Properties of the statistics aggregator\<close>

text \<open>
  Claim C7. \<^verbatim>\<open>update_stats\<close> adds one to exactly one of the five counters when the
  file type of the mode is regular file, directory, symbolic link, FIFO or socket (and
  leaves the other four as they are), adds to none of them for any other file type, and
  in every case adds the size and the block count to the two totals. The additions are
  those of 32-bit and 64-bit words.
\<close>

theorem update_stats_counts:
  "let stats' = update_stats stats st; m = st_mode st in
     (S_ISREG m \<longrightarrow> files stats' = files stats + 1 \<and> dirs stats' = dirs stats \<and>
        links stats' = links stats \<and> fifos stats' = fifos stats \<and> socks stats' = socks stats) \<and>
     (S_ISDIR m \<longrightarrow> files stats' = files stats \<and> dirs stats' = dirs stats + 1 \<and>
        links stats' = links stats \<and> fifos stats' = fifos stats \<and> socks stats' = socks stats) \<and>
     (S_ISLNK m \<longrightarrow> files stats' = files stats \<and> dirs stats' = dirs stats \<and>
        links stats' = links stats + 1 \<and> fifos stats' = fifos stats \<and> socks stats' = socks stats) \<and>
     (S_ISFIFO m \<longrightarrow> files stats' = files stats \<and> dirs stats' = dirs stats \<and>
        links stats' = links stats \<and> fifos stats' = fifos stats + 1 \<and> socks stats' = socks stats) \<and>
     (S_ISSOCK m \<longrightarrow> files stats' = files stats \<and> dirs stats' = dirs stats \<and>
        links stats' = links stats \<and> fifos stats' = fifos stats \<and> socks stats' = socks stats + 1) \<and>
     (\<not> S_ISREG m \<and> \<not> S_ISDIR m \<and> \<not> S_ISLNK m \<and> \<not> S_ISFIFO m \<and> \<not> S_ISSOCK m \<longrightarrow>
        files stats' = files stats \<and> dirs stats' = dirs stats \<and>
        links stats' = links stats \<and> fifos stats' = fifos stats \<and> socks stats' = socks stats) \<and>
     size_total stats' = size_total stats + st_size st \<and>
     blocks stats' = blocks stats + st_blocks st"
  by (simp add: Let_def update_stats_def S_ISREG_def S_ISDIR_def S_ISLNK_def S_ISFIFO_def
        S_ISSOCK_def S_IFREG_def S_IFDIR_def S_IFLNK_def S_IFIFO_def S_IFSOCK_def)

text \<open>
  A regular file of 10 bytes in 8 blocks (mode 0100644) and a character device (mode
  020666).
\<close>

theorem update_stats_counts_witness:
  "S_ISREG 0x81A4 \<and>
   files (update_stats zero_summary
     \<lparr>st_mode = 0x81A4, st_uid = 0, st_gid = 0, st_size = 10, st_blocks = 8\<rparr>) = 1 \<and>
   dirs (update_stats zero_summary
     \<lparr>st_mode = 0x81A4, st_uid = 0, st_gid = 0, st_size = 10, st_blocks = 8\<rparr>) = 0 \<and>
   size_total (update_stats zero_summary
     \<lparr>st_mode = 0x81A4, st_uid = 0, st_gid = 0, st_size = 10, st_blocks = 8\<rparr>) = 10 \<and>
   blocks (update_stats zero_summary
     \<lparr>st_mode = 0x81A4, st_uid = 0, st_gid = 0, st_size = 10, st_blocks = 8\<rparr>) = 8 \<and>
   \<not> S_ISREG 0x21B6 \<and> \<not> S_ISDIR 0x21B6 \<and> \<not> S_ISLNK 0x21B6 \<and> \<not> S_ISFIFO 0x21B6 \<and>
   \<not> S_ISSOCK 0x21B6 \<and>
   files (update_stats zero_summary
     \<lparr>st_mode = 0x21B6, st_uid = 0, st_gid = 0, st_size = 0, st_blocks = 0\<rparr>) = 0"
proof -
  have reg: "S_ISREG 0x81A4"
    by (simp add: S_ISREG_def S_IFMT_def S_IFREG_def)
  have dev: "\<not> S_ISREG 0x21B6 \<and> \<not> S_ISDIR 0x21B6 \<and> \<not> S_ISLNK 0x21B6 \<and> \<not> S_ISFIFO 0x21B6
      \<and> \<not> S_ISSOCK 0x21B6"
    by (simp add: S_ISREG_def S_ISDIR_def S_ISLNK_def S_ISFIFO_def S_ISSOCK_def S_IFMT_def
        S_IFREG_def S_IFDIR_def S_IFLNK_def S_IFIFO_def S_IFSOCK_def)
  show ?thesis
    using reg dev
      update_stats_counts [of zero_summary
        "\<lparr>st_mode = 0x81A4, st_uid = 0, st_gid = 0, st_size = 10, st_blocks = 8\<rparr>"]
      update_stats_counts [of zero_summary
        "\<lparr>st_mode = 0x21B6, st_uid = 0, st_gid = 0, st_size = 0, st_blocks = 0\<rparr>"]
    by (simp add: Let_def zero_summary_def)
qed

section \<open>Sequencing of computations\<close>

lemma and_then_yield [simp]: "and_then (yield a) f = f a"
  by (simp add: and_then_def yield_def split: prod.splits)

lemma and_then_fault [simp]: "and_then (evs, Inl x) f = (evs, Inl x)"
  by (simp add: and_then_def)

lemma and_then_result [simp]: "and_then (evs, Inr a) f = (evs @ fst (f a), snd (f a))"
  by (simp add: and_then_def split: prod.splits)

lemma and_then_emit [simp]: "and_then (emit evs) f = (evs @ fst (f ()), snd (f ()))"
  by (simp add: emit_def)

lemma and_then_panic [simp]: "and_then (panic msg) f = panic msg"
  by (simp add: panic_def)

section \<open>A directory that cannot be opened\<close>

lemma print_errno_classified:
  "errno = EACCES \<or> errno = ENOENT \<or> errno = ENOTDIR \<Longrightarrow>
   print_errno pstr flags errno = emit [Error_line (gen_tree_shape True flags pstr) errno]"
  by (simp add: print_errno_def Let_def)

text \<open>
  In \<^verbatim>\<open>src/src/dirtree.c\<close> a call of \<^verbatim>\<open>processDir\<close> whose \<^verbatim>\<open>opendir\<close> fails with
  EACCES, ENOENT or ENOTDIR writes one error line, with the prefix of a last sibling,
  and returns the summary it was given.
\<close>

lemma processDir_checked_open_failure:
  "e = EACCES \<or> e = ENOENT \<or> e = ENOTDIR \<Longrightarrow>
   processDir Src_src_dirtree env flags pstr stats errno (Open_fails e) =
     ([Error_line (gen_tree_shape True flags pstr) e], Inr (stats, e))"
  by (simp add: print_errno_classified yield_def)

lemma error_line_text:
  "text_of env (Error_line p EACCES) = p @ ''ERROR: Permission denied\<newline>''"
  "text_of env (Error_line p ENOENT) = p @ ''ERROR: No such file or directory\<newline>''"
  "text_of env (Error_line p ENOTDIR) = p @ ''ERROR: Not a directory\<newline>''"
  by (simp_all add: text_of_def EACCES_def ENOENT_def ENOTDIR_def)

text \<open>
  Claim C1 asks that a call of \<^verbatim>\<open>processDir\<close> on a directory that cannot be opened
  writes one error line, returns without reading entries and leaves the summary as it
  is. \<^verbatim>\<open>src/src/dirtree.c\<close> does so (\<open>processDir_checked_open_failure\<close>).
  \<^verbatim>\<open>src/dirtree.c\<close> does not test the stream: for each of the three errors it writes
  the error line and then calls \<^verbatim>\<open>getNext\<close>, that is \<^verbatim>\<open>readdir\<close>, on the null stream,
  so the call does not return.
\<close>

theorem processDir_unchecked_open_failure:
  "processDir Src_dirtree env flags pstr stats errno (Open_fails EACCES) =
     ([Error_line (gen_tree_shape True flags pstr) EACCES], Inl Null_dir_stream)
   \<and> processDir Src_dirtree env flags pstr stats errno (Open_fails ENOENT) =
     ([Error_line (gen_tree_shape True flags pstr) ENOENT], Inl Null_dir_stream)
   \<and> processDir Src_dirtree env flags pstr stats errno (Open_fails ENOTDIR) =
     ([Error_line (gen_tree_shape True flags pstr) ENOTDIR], Inl Null_dir_stream)"
  by (simp add: print_errno_classified) (simp add: EACCES_def ENOENT_def ENOTDIR_def)

section \<open>The flags of the command line\<close>

text \<open>
  Claim C2 asks that \<^verbatim>\<open>-v\<close> turns the tree view on, as the usage text of \<^verbatim>\<open>syntax\<close>
  says (``Turns on tree view''). \<^verbatim>\<open>main\<close> sets \<^verbatim>\<open>F_VERBOSE\<close> only: for the arguments
  \<^verbatim>\<open>-v\<close> alone the flags are \<^verbatim>\<open>F_VERBOSE\<close>, the bit \<^verbatim>\<open>F_TREE\<close> is not among them, and
  \<^verbatim>\<open>gen_tree_shape\<close> indents by two spaces without any glyph. The run with \<^verbatim>\<open>-v\<close> on
  the small tree writes prefixes of spaces only.
\<close>

theorem verbose_alone_draws_no_tree:
  "parse_args argv0 [''-v''] 0 [] = ([], Inr (F_VERBOSE, []))
   \<and> F_VERBOSE AND F_TREE = 0
   \<and> gen_tree_shape is_last F_VERBOSE pstr = pstr @ ''  ''
   \<and> rendered (fst (main v sample_env ''dirtree'' [''-v'', ''r'']))
       = [(''  '', ''b''), (''    '', ''c''), (''  '', ''a.txt'')]"
proof -
  have "rendered (fst (main v sample_env ''dirtree'' [''-v'', ''r'']))
       = [(''  '', ''b''), (''    '', ''c''), (''  '', ''a.txt'')]"
    by (cases v; code_simp)
  then show ?thesis
    by (simp add: yield_def gen_tree_shape_def F_VERBOSE_def F_TREE_def)
qed

section \<open>Properties of the comparator and of sorting\<close>

lemma strcmp_eq_0_iff: "strcmp a b = 0 \<longleftrightarrow> a = b"
  by (induction a b rule: strcmp.induct) auto

lemma strcmp_swap: "strcmp b a = - strcmp a b"
  by (induction a b rule: strcmp.induct) (auto simp: not_less order.order_iff_strict)

lemma strcmp_trans: "strcmp a b \<le> 0 \<Longrightarrow> strcmp b c \<le> 0 \<Longrightarrow> strcmp a c \<le> 0"
proof (induction a b arbitrary: c rule: strcmp.induct)
  case 1
  then show ?case by simp
next
  case (2 y ys)
  then show ?case by (cases c) auto
next
  case (3 x xs)
  then show ?case by simp
next
  case (4 x xs y ys)
  show ?case
  proof (cases c)
    case Nil
    with 4 show ?thesis by (auto split: if_splits)
  next
    case (Cons z zs)
    with 4 show ?thesis by (auto split: if_splits)
  qed
qed

text \<open>\<^verbatim>\<open>strcmp\<close> is the lexicographic order of the bytes.\<close>

lemma strcmp_lexord:
  "strcmp a b < 0 \<longleftrightarrow> (a, b) \<in> lexord {(x, y). (of_char x :: nat) < of_char y}"
  by (induction a b rule: strcmp.induct) auto

lemma dirent_compare_swap: "dirent_compare b a = - dirent_compare a b"
  using strcmp_swap [of "d_name b" "d_name a"] by (auto simp: dirent_compare_def)

lemma dirent_compare_trans:
  "dirent_compare a b \<le> 0 \<Longrightarrow> dirent_compare b c \<le> 0 \<Longrightarrow> dirent_compare a c \<le> 0"
  by (auto simp: dirent_compare_def split: if_splits intro: strcmp_trans)

lemma dirent_compare_eq_0: "dirent_compare a b = 0 \<Longrightarrow> d_name a = d_name b"
  by (auto simp: dirent_compare_def strcmp_eq_0_iff split: if_splits)

lemma mset_qsort_insert: "mset (qsort_insert c x xs) = add_mset x (mset xs)"
  by (induction xs) auto

lemma mset_qsort: "mset (qsort c xs) = mset xs"
  by (induction xs) (auto simp: qsort_def mset_qsort_insert)

lemma sorted_qsort_insert:
  assumes total: "\<And>a b. c a b \<le> 0 \<or> c b a \<le> 0"
    and trans: "\<And>a b d. c a b \<le> 0 \<Longrightarrow> c b d \<le> 0 \<Longrightarrow> c a d \<le> 0"
  shows "sorted_wrt (\<lambda>a b. c a b \<le> 0) xs \<Longrightarrow>
    sorted_wrt (\<lambda>a b. c a b \<le> 0) (qsort_insert c x xs)"
proof (induction xs)
  case Nil
  then show ?case by simp
next
  case (Cons y ys)
  show ?case
  proof (cases "c x y \<le> 0")
    case True
    with Cons.prems trans show ?thesis by auto
  next
    case False
    with total have "c y x \<le> 0" by blast
    with False Cons show ?thesis
      by (auto simp: set_mset_mset [symmetric] mset_qsort_insert simp del: set_mset_mset)
  qed
qed

lemma sorted_qsort:
  assumes total: "\<And>a b. c a b \<le> 0 \<or> c b a \<le> 0"
    and trans: "\<And>a b d. c a b \<le> 0 \<Longrightarrow> c b d \<le> 0 \<Longrightarrow> c a d \<le> 0"
  shows "sorted_wrt (\<lambda>a b. c a b \<le> 0) (qsort c xs)"
proof (induction xs)
  case Nil
  then show ?case by (simp add: qsort_def)
next
  case (Cons x xs)
  have "qsort c (x # xs) = qsort_insert c x (qsort c xs)"
    by (simp add: qsort_def)
  with Cons sorted_qsort_insert [OF total trans] show ?case
    by simp
qed

lemma compare_files_total: "compare_files a b \<le> 0 \<or> compare_files b a \<le> 0"
  using dirent_compare_swap [of "dent b" "dent a"] by (simp add: compare_files_def) linarith

lemma compare_files_trans:
  "compare_files a b \<le> 0 \<Longrightarrow> compare_files b c \<le> 0 \<Longrightarrow> compare_files a c \<le> 0"
  unfolding compare_files_def by (rule dirent_compare_trans)

lemma sorted_qsort_files:
  "sorted_wrt (\<lambda>a b. compare_files a b \<le> 0) (qsort compare_files xs)"
  by (rule sorted_qsort [OF compare_files_total compare_files_trans])

lemma compare_files_refl: "compare_files a a = 0"
  by (simp add: compare_files_def dirent_compare_def strcmp_eq_0_iff)

lemma sorted_permutation_unique:
  assumes "sorted_wrt (\<lambda>a b. compare_files a b \<le> 0) ys"
    and "sorted_wrt (\<lambda>a b. compare_files a b \<le> 0) zs"
    and "mset ys = mset zs"
    and "inj_on (d_name \<circ> dent) (set zs)"
  shows "ys = zs"
  using assms
proof (induction ys arbitrary: zs)
  case Nil
  then show ?case by simp
next
  case (Cons y ys)
  from Cons.prems(3) obtain z zs' where zs: "zs = z # zs'"
    by (cases zs) auto
  from Cons.prems(3) have sets: "set (y # ys) = set zs"
    by (metis set_mset_mset)
  have yz: "compare_files y z \<le> 0"
  proof (cases "z = y")
    case True
    then show ?thesis by (simp add: compare_files_refl)
  next
    case False
    with sets zs have "z \<in> set ys" by auto
    with Cons.prems(1) show ?thesis by simp
  qed
  have zy: "compare_files z y \<le> 0"
  proof (cases "y = z")
    case True
    then show ?thesis by (simp add: compare_files_refl)
  next
    case False
    with sets zs have "y \<in> set zs'" by auto
    with Cons.prems(2) zs show ?thesis by simp
  qed
  from yz zy dirent_compare_swap [of "dent z" "dent y"] have "compare_files y z = 0"
    by (simp add: compare_files_def)
  then have "d_name (dent y) = d_name (dent z)"
    by (simp add: compare_files_def dirent_compare_eq_0)
  moreover from sets zs have "y \<in> set zs" "z \<in> set zs" by auto
  ultimately have eq: "y = z"
    using Cons.prems(4) by (auto simp: inj_on_def)
  with Cons.prems zs have "ys = zs'"
    by (intro Cons.IH) (auto simp: inj_on_def)
  with eq zs show ?case by simp
qed

text \<open>
  Whatever way \<^verbatim>\<open>qsort\<close> sorts: when no two entries have the same name, the sorted
  array is the one of the model.
\<close>

lemma qsort_result_unique:
  assumes "sorted_wrt (\<lambda>a b. compare_files a b \<le> 0) ys"
    and "mset ys = mset xs"
    and "inj_on (d_name \<circ> dent) (set xs)"
  shows "ys = qsort compare_files xs"
proof -
  have "set (qsort compare_files xs) = set xs"
    using mset_qsort [of compare_files xs] by (metis set_mset_mset)
  with assms show ?thesis
    by (intro sorted_permutation_unique sorted_qsort_files) (simp_all add: mset_qsort)
qed

lemma directories_first:
  assumes "sorted_wrt (\<lambda>a b. compare_files a b \<le> 0) s"
  shows "s = filter (\<lambda>f. d_type (dent f) = DT_DIR) s @ filter (\<lambda>f. d_type (dent f) \<noteq> DT_DIR) s"
  using assms
proof (induction s)
  case Nil
  show ?case by simp
next
  case (Cons f fs)
  show ?case
  proof (cases "d_type (dent f) = DT_DIR")
    case True
    with Cons show ?thesis by simp
  next
    case False
    have "d_type (dent g) \<noteq> DT_DIR" if "g \<in> set fs" for g
    proof
      assume "d_type (dent g) = DT_DIR"
      with False have "compare_files f g = 1"
        by (auto simp: compare_files_def dirent_compare_def)
      moreover from Cons.prems that have "compare_files f g \<le> 0" by simp
      ultimately show False by simp
    qed
    then have "filter (\<lambda>f. d_type (dent f) = DT_DIR) fs = []"
      and "filter (\<lambda>f. d_type (dent f) \<noteq> DT_DIR) fs = fs"
      by (simp_all add: filter_empty_conv filter_id_conv)
    with False show ?thesis by simp
  qed
qed

lemma names_sorted:
  assumes "sorted_wrt (\<lambda>a b. compare_files a b \<le> 0) s"
  shows "sorted_wrt (\<lambda>a b. strcmp (d_name (dent a)) (d_name (dent b)) \<le> 0)
           (filter (\<lambda>f. d_type (dent f) = DT_DIR) s)"
    and "sorted_wrt (\<lambda>a b. strcmp (d_name (dent a)) (d_name (dent b)) \<le> 0)
           (filter (\<lambda>f. d_type (dent f) \<noteq> DT_DIR) s)"
proof -
  have dir: "compare_files a b \<le> 0 \<Longrightarrow> d_type (dent a) = DT_DIR \<Longrightarrow>
      d_type (dent b) = DT_DIR \<Longrightarrow> strcmp (d_name (dent a)) (d_name (dent b)) \<le> 0" for a b
    by (simp add: compare_files_def dirent_compare_def)
  have other: "compare_files a b \<le> 0 \<Longrightarrow> d_type (dent a) \<noteq> DT_DIR \<Longrightarrow>
      d_type (dent b) \<noteq> DT_DIR \<Longrightarrow> strcmp (d_name (dent a)) (d_name (dent b)) \<le> 0" for a b
    by (simp add: compare_files_def dirent_compare_def)
  from assms show "sorted_wrt (\<lambda>a b. strcmp (d_name (dent a)) (d_name (dent b)) \<le> 0)
           (filter (\<lambda>f. d_type (dent f) = DT_DIR) s)"
    by (induction s) (auto intro: dir)
  from assms show "sorted_wrt (\<lambda>a b. strcmp (d_name (dent a)) (d_name (dent b)) \<le> 0)
           (filter (\<lambda>f. d_type (dent f) \<noteq> DT_DIR) s)"
    by (induction s) (auto intro: other)
qed

section \<open>The entry lines of a traversal\<close>

lemma rendered_simps [simp]:
  "rendered [] = []"
  "rendered (evs @ evs') = rendered evs @ rendered evs'"
  "rendered (Name_column fl p n # evs) = (p, n) # rendered evs"
  "rendered (End_of_line # evs) = rendered evs"
  "rendered (Verbose_columns u g s b t # evs) = rendered evs"
  "rendered (Error_line p e # evs) = rendered evs"
  "rendered (Error_code e # evs) = rendered evs"
  "rendered (Panic_message msg # evs) = rendered evs"
  "rendered (Perror e # evs) = rendered evs"
  by (simp_all add: rendered_def)

text \<open>
  The loop that fills \<^verbatim>\<open>dirents\<close> returns every entry of the stream but \<^verbatim>\<open>.\<close> and
  \<^verbatim>\<open>..\<close>, reports a read error with \<^verbatim>\<open>perror\<close>, and leaves \<^verbatim>\<open>errno\<close> as the last
  \<^verbatim>\<open>readdir\<close> set it.
\<close>

lemma read_dirents_eq:
  "read_dirents stream e_end =
     ((if e_end \<noteq> 0 then [Perror e_end] else []), listed stream, e_end)"
proof (induction stream)
  case Nil
  show ?case by (simp add: read_dirents.simps [of "[]"] listed_def)
next
  case (Cons f fs)
  show ?case
  proof (cases "d_name (dent f) = ''.'' \<or> d_name (dent f) = ''..''")
    case True
    then have "read_dirents (f # fs) e_end = read_dirents fs e_end"
      by (simp add: read_dirents.simps [of "f # fs"] read_dirents.simps [of fs])
    with True Cons show ?thesis by (auto simp: listed_def)
  next
    case False
    with Cons show ?thesis
      by (simp add: read_dirents.simps [of "f # fs"] listed_def)
  qed
qed

lemma traces_yield [simp]: "traces (yield a) []"
  by (simp add: traces_def yield_def)

lemma traces_fault: "rendered evs = [] \<Longrightarrow> traces (evs, Inl x) L"
  by (simp add: traces_def)

lemma traces_and_then:
  assumes "traces m A" and "\<And>a. snd m = Inr a \<Longrightarrow> traces (f a) B"
  shows "traces (and_then m f) (A @ B)"
proof (cases m)
  case (Pair evs res)
  show ?thesis
  proof (cases res)
    case (Inl x)
    with Pair assms(1) show ?thesis
      by (simp add: traces_def)
  next
    case (Inr a)
    with Pair assms(1) have A: "map (\<lambda>(p, n). (length p, n)) (rendered evs) = A"
      by (simp add: traces_def)
    from Pair Inr assms(2) have "traces (f a) B" by simp
    with A Pair Inr show ?thesis
      by (auto simp: traces_def)
  qed
qed

lemma traces_and_then_Nil:
  assumes "traces m []" and "\<And>a. snd m = Inr a \<Longrightarrow> traces (f a) B"
  shows "traces (and_then m f) B"
  using traces_and_then [OF assms] by simp

lemma traces_print_errno [simp]: "traces (print_errno pstr flags errno) []"
  by (simp add: traces_def print_errno_def Let_def emit_def panic_def)

lemma traces_print_verbose [simp]: "traces (print_verbose env st) []"
  by (simp add: traces_def print_verbose_def emit_def panic_def split: option.splits)

lemma length_gen_tree_shape [simp]:
  "length (gen_tree_shape is_last flags pstr) = length pstr + 2"
  by (simp add: gen_tree_shape_def Let_def)

lemma expect_Suc: "expect n (map (\<lambda>(k, f). (Suc k, f)) vs) = expect (n + 2) vs"
  by (simp add: expect_def case_prod_unfold)

text \<open>
  The entry lines of a call of \<^verbatim>\<open>processDir\<close> follow the tree below the directory: the
  line of an entry at depth \<open>k\<close> has a prefix that is \<open>2 * k\<close> bytes longer than the
  prefix the call was given.
\<close>

lemma traces_processDir:
  "traces (processDir v env flags pstr stats errno dir) (expect (length pstr) (visited dir))"
  and traces_processEntries:
  "traces (processEntries v env flags pstr stats errno entries)
     (expect (length pstr) (visited_entries entries))"
proof (induction v env flags pstr stats errno dir and v env flags pstr stats errno entries
    rule: processDir_processEntries.induct)
  case (1 v env flags pstr stats errno e)
  show ?case
    by (cases v) (auto intro!: traces_and_then_Nil traces_fault simp: expect_def)
next
  case (2 v env flags pstr stats errno stream e_end)
  have "traces (processEntries v env flags pstr stats e_end (qsort compare_files (listed stream)))
     (expect (length pstr) (visited_entries (qsort compare_files (listed stream))))"
    using 2 [OF refl] by (simp add: read_dirents_eq)
  then have "traces (let r = read_dirents stream e_end in
            and_then (emit (fst r))
              (\<lambda>_. processEntries v env flags pstr stats (snd (snd r))
                     (qsort compare_files (fst (snd r)))))
     (expect (length pstr) (visited_entries (qsort compare_files (listed stream))))"
    by (auto simp: read_dirents_eq traces_def)
  then show ?case
    by (auto intro!: traces_and_then_Nil)
next
  case (3 v env flags pstr stats errno)
  show ?case by (simp add: expect_def)
next
  case (4 v env flags pstr stats errno entry entries)
  let ?next = "gen_tree_shape (entries = []) flags pstr"
  let ?errno1 = "if lstat_errno entry \<noteq> 0 then lstat_errno entry else errno"
  let ?sub = "if S_ISDIR (st_mode (i_stat entry))
      then map (\<lambda>(k, f). (Suc k, f)) (visited (subdir entry)) else []"
  let ?L = "expect (length pstr) ?sub @ expect (length pstr) (visited_entries entries)"
  let ?descend = "if S_ISDIR (st_mode (i_stat entry))
                   then processDir v env flags ?next (update_stats stats (i_stat entry))
                          ?errno1 (subdir entry)
                   else yield (update_stats stats (i_stat entry), ?errno1)"
  let ?inner = "and_then ?descend
           (\<lambda>(stats', errno'). processEntries v env flags pstr stats' errno' entries)"
  have sub: "traces ?descend (expect (length pstr) ?sub)"
    using "4.IH"(1) [OF refl refl] by (simp add: expect_Suc) (simp add: expect_def)
  have rest: "traces (processEntries v env flags pstr stats' errno' entries)
        (expect (length pstr) (visited_entries entries))" for stats' errno'
    using "4.IH"(2) [OF refl refl] by simp
  have inner: "traces ?inner ?L"
    by (rule traces_and_then [OF sub]) (simp add: case_prod_unfold rest)
  have eol: "traces (and_then (emit [End_of_line]) (\<lambda>_. ?inner)) ?L"
    using inner by (simp add: traces_def)
  have verbose: "traces (if flags AND F_VERBOSE \<noteq> 0 then print_verbose env (i_stat entry)
                          else yield ()) []"
    by simp
  have tail: "traces (and_then (if flags AND F_VERBOSE \<noteq> 0 then print_verbose env (i_stat entry)
                          else yield ())
           (\<lambda>_. and_then (emit [End_of_line]) (\<lambda>_. ?inner))) ?L"
    by (rule traces_and_then_Nil [OF verbose eol])
  have line: "traces (emit [Name_column flags ?next (d_name (dent entry))])
      [(length pstr + 2, d_name (dent entry))]"
    by (simp add: traces_def emit_def)
  have "traces (processEntries v env flags pstr stats errno (entry # entries))
      ([(length pstr + 2, d_name (dent entry))] @ ?L)"
    unfolding processEntries.simps Let_def
    by (rule traces_and_then [OF line tail])
  then show ?case
    by (simp add: expect_def)
qed

lemma visited_depth_positive:
  "(k, f) \<in> set (visited dir) \<Longrightarrow> 0 < k"
  "(k, f) \<in> set (visited_entries es) \<Longrightarrow> 0 < k"
  by (induction dir and es arbitrary: k f and k f rule: visited_visited_entries.induct)
    (auto split: if_splits)

lemma children_visited:
  "filter (\<lambda>(k, f). k = Suc 0) (visited_entries es) = map (Pair 1) es"
proof (induction es)
  case Nil
  show ?case by simp
next
  case (Cons e es)
  have "filter (\<lambda>(k, f). k = Suc 0) (map (\<lambda>(k, f). (Suc k, f)) (visited (subdir e))) = []"
    using visited_depth_positive(1) [of _ _ "subdir e"]
    by (auto simp: filter_empty_conv)
  with Cons show ?case by simp
qed

lemma children_expected:
  "map snd (filter (\<lambda>(l, name). l = n + 2) (expect n (visited_entries es)))
     = map (d_name \<circ> dent) es"
proof -
  have "filter (\<lambda>(l, name). l = n + 2) (expect n vs)
      = expect n (filter (\<lambda>(k, f). k = Suc 0) vs)" for vs
    by (induction vs) (auto simp: expect_def)
  then show ?thesis
    by (simp add: children_visited) (simp add: expect_def comp_def)
qed

lemma names_at_rendered:
  "names_at n evs =
     map snd (filter (\<lambda>(l, name). l = n) (map (\<lambda>(p, name). (length p, name)) (rendered evs)))"
  by (simp add: names_at_def filter_map comp_def case_prod_unfold)

text \<open>
  The lines of the entries of the directory itself, those whose prefix is two bytes
  longer than the prefix of the call, come in the order of the sorted array.
\<close>

lemma children_lines:
  "prefix (names_at (length pstr + 2)
            (fst (processDir v env flags pstr stats errno (Opened stream e_end))))
     (map (d_name \<circ> dent) (qsort compare_files (listed stream)))"
  "snd (processDir v env flags pstr stats errno (Opened stream e_end)) = Inr r \<Longrightarrow>
   names_at (length pstr + 2) (fst (processDir v env flags pstr stats errno (Opened stream e_end)))
     = map (d_name \<circ> dent) (qsort compare_files (listed stream))"
proof -
  let ?run = "processDir v env flags pstr stats errno (Opened stream e_end)"
  let ?L = "expect (length pstr) (visited (Opened stream e_end))"
  have t: "traces ?run ?L"
    by (rule traces_processDir)
  have L: "map snd (filter (\<lambda>(l, name). l = length pstr + 2) ?L)
      = map (d_name \<circ> dent) (qsort compare_files (listed stream))"
    by (simp only: visited.simps children_expected)
  from t have "prefix (map (\<lambda>(p, n). (length p, n)) (rendered (fst ?run))) ?L"
    by (simp add: traces_def)
  then have "prefix (map snd (filter (\<lambda>(l, name). l = length pstr + 2)
        (map (\<lambda>(p, n). (length p, n)) (rendered (fst ?run)))))
      (map snd (filter (\<lambda>(l, name). l = length pstr + 2) ?L))"
    by (intro map_mono_prefix filter_mono_prefix)
  then show "prefix (names_at (length pstr + 2) (fst ?run))
     (map (d_name \<circ> dent) (qsort compare_files (listed stream)))"
    by (simp only: names_at_rendered L)
  assume "snd ?run = Inr r"
  with t have "map (\<lambda>(p, n). (length p, n)) (rendered (fst ?run)) = ?L"
    by (simp add: traces_def)
  then show "names_at (length pstr + 2) (fst ?run)
     = map (d_name \<circ> dent) (qsort compare_files (listed stream))"
    by (simp only: names_at_rendered L)
qed

lemma perror_written:
  "errno = 0 \<or> errno = EACCES \<or> errno = ENOENT \<or> errno = ENOTDIR \<Longrightarrow> e_end \<noteq> 0 \<Longrightarrow>
   Perror e_end \<in> set (fst (processDir v env flags pstr stats errno (Opened stream e_end)))"
  by (auto simp: read_dirents_eq print_errno_def Let_def EACCES_def ENOENT_def ENOTDIR_def)

text \<open>The run of \<^verbatim>\<open>processDir\<close> on the small tree, in tree mode.\<close>

lemma sample_run:
  "processDir v sample_env F_TREE [] zero_summary 0 (Opened sample_entries 0) =
     ([Name_column F_TREE ''|-'' ''b'', End_of_line,
       Name_column F_TREE [CHR ''|'', CHR '' '', CHR 0x60, CHR ''-''] ''c'', End_of_line,
       Name_column F_TREE [CHR 0x60, CHR ''-''] ''a.txt'', End_of_line],
      Inr (\<lparr>dirs = 1, files = 2, links = 0, fifos = 0, socks = 0,
             size_total = 30, blocks = 24\<rparr>, 0))"
  by (simp add: sample_entries_def sample_stat_def read_dirents_eq listed_def qsort_def
      compare_files_def dirent_compare_def DT_DIR_def gen_tree_shape_def F_TREE_def F_VERBOSE_def
      Let_def emit_def yield_def update_stats_def zero_summary_def S_ISDIR_def S_ISREG_def
      S_ISLNK_def S_ISFIFO_def S_ISSOCK_def S_IFMT_def S_IFDIR_def S_IFREG_def S_IFLNK_def
      S_IFIFO_def S_IFSOCK_def)

lemma sample_sorted:
  "map (d_name \<circ> dent) (qsort compare_files (fst (snd (read_dirents sample_entries 0))))
     = [''b'', ''a.txt'']"
  by (simp add: sample_entries_def read_dirents_eq listed_def qsort_def compare_files_def
      dirent_compare_def DT_DIR_def)

lemma sample_visited:
  "map (\<lambda>(k, f). (2 * k, d_name (dent f))) (visited (Opened sample_entries 0))
     = [(2, ''b''), (4, ''c''), (2, ''a.txt'')]"
  by (simp add: sample_entries_def sample_stat_def listed_def qsort_def compare_files_def
      dirent_compare_def DT_DIR_def S_ISDIR_def S_IFMT_def S_IFDIR_def)

text \<open>
  Claim C10. In both modes the child prefix that \<^verbatim>\<open>gen_tree_shape\<close> makes is two bytes
  longer than the parent prefix. Hence in every call of \<^verbatim>\<open>processDir\<close> the entry lines
  follow the tree below the directory, and the prefix of the line of an entry at depth
  \<open>k\<close> below the directory is \<open>2 * k\<close> bytes longer than the prefix \<open>pstr\<close> of the call:
  the lines written are a prefix of the list of the entries of the tree, and the whole
  list when the call returns. \<^verbatim>\<open>main\<close> calls \<^verbatim>\<open>processDir\<close> for a root with the empty
  prefix, so the prefix of an entry has twice the length of its depth below the root.
\<close>

theorem prefix_length_twice_depth:
  "length (gen_tree_shape is_last flags pstr) = length pstr + 2
   \<and> prefix (map (\<lambda>(p, name). (length p, name))
               (rendered (fst (processDir v env flags pstr stats errno dir))))
        (map (\<lambda>(k, f). (length pstr + 2 * k, d_name (dent f))) (visited dir))
   \<and> (\<forall>r. snd (processDir v env flags pstr stats errno dir) = Inr r \<longrightarrow>
        map (\<lambda>(p, name). (length p, name))
          (rendered (fst (processDir v env flags pstr stats errno dir)))
        = map (\<lambda>(k, f). (length pstr + 2 * k, d_name (dent f))) (visited dir))"
  using traces_processDir [of v env flags pstr stats errno dir]
  by (simp add: traces_def expect_def)

text \<open>On the small tree: \<^verbatim>\<open>b\<close> and \<^verbatim>\<open>a.txt\<close> at depth 1, \<^verbatim>\<open>c\<close> at depth 2.\<close>

theorem prefix_length_twice_depth_witness:
  "snd (processDir Src_dirtree sample_env F_TREE [] zero_summary 0 (Opened sample_entries 0))
     = Inr (\<lparr>dirs = 1, files = 2, links = 0, fifos = 0, socks = 0,
              size_total = 30, blocks = 24\<rparr>, 0)
   \<and> map (\<lambda>(p, name). (length p, name))
        (rendered (fst (processDir Src_dirtree sample_env F_TREE [] zero_summary 0
                         (Opened sample_entries 0))))
     = [(2, ''b''), (4, ''c''), (2, ''a.txt'')]"
  using prefix_length_twice_depth [of True F_TREE "[]" Src_dirtree sample_env zero_summary 0
      "Opened sample_entries 0"]
    sample_run [of Src_dirtree] sample_visited
  by simp

section \<open>The order of the entries of a directory\<close>

text \<open>
  Claim C3. For every call of \<^verbatim>\<open>processDir\<close> on a directory that opens, at any depth:
  the lines of the entries of the directory (those with a prefix two bytes longer than
  the prefix of the call) are written in the order of the sorted array \<^verbatim>\<open>dirents\<close> (a
  prefix of it if the run is aborted); the sorted array is a permutation of the entries
  read; in it every entry with \<^verbatim>\<open>d_type == DT_DIR\<close> comes before every other entry, and
  the names of the directories, and those of the other entries, ascend in the order of
  \<^verbatim>\<open>strcmp\<close>, which is the lexicographic order of the bytes. The comparator
  \<^verbatim>\<open>dirent_compare\<close> is a total order up to entries that compare equal: swapping the
  arguments negates the result, it is transitive, and two entries compare equal only if
  their names are the same.
\<close>

theorem children_order:
  "prefix (names_at (length pstr + 2)
             (fst (processDir v env flags pstr stats errno (Opened stream e_end))))
      (map (d_name \<circ> dent) (qsort compare_files (fst (snd (read_dirents stream e_end)))))
   \<and> (\<forall>r. snd (processDir v env flags pstr stats errno (Opened stream e_end)) = Inr r \<longrightarrow>
        names_at (length pstr + 2)
          (fst (processDir v env flags pstr stats errno (Opened stream e_end)))
        = map (d_name \<circ> dent)
            (qsort compare_files (fst (snd (read_dirents stream e_end)))))
   \<and> mset (qsort compare_files (fst (snd (read_dirents stream e_end))))
       = mset (fst (snd (read_dirents stream e_end)))
   \<and> qsort compare_files (fst (snd (read_dirents stream e_end)))
       = filter (\<lambda>f. d_type (dent f) = DT_DIR)
           (qsort compare_files (fst (snd (read_dirents stream e_end)))) @
         filter (\<lambda>f. d_type (dent f) \<noteq> DT_DIR)
           (qsort compare_files (fst (snd (read_dirents stream e_end))))
   \<and> sorted_wrt (\<lambda>a b. strcmp (d_name (dent a)) (d_name (dent b)) \<le> 0)
       (filter (\<lambda>f. d_type (dent f) = DT_DIR)
          (qsort compare_files (fst (snd (read_dirents stream e_end)))))
   \<and> sorted_wrt (\<lambda>a b. strcmp (d_name (dent a)) (d_name (dent b)) \<le> 0)
       (filter (\<lambda>f. d_type (dent f) \<noteq> DT_DIR)
          (qsort compare_files (fst (snd (read_dirents stream e_end)))))
   \<and> (\<forall>x y. strcmp x y < 0 \<longleftrightarrow> (x, y) \<in> lexord {(c, d). (of_char c :: nat) < of_char d})
   \<and> (\<forall>a b c. dirent_compare b a = - dirent_compare a b
         \<and> (dirent_compare a b \<le> 0 \<and> dirent_compare b c \<le> 0 \<longrightarrow> dirent_compare a c \<le> 0)
         \<and> (dirent_compare a b = 0 \<longrightarrow> d_name a = d_name b))"
proof -
  let ?sorted = "qsort compare_files (fst (snd (read_dirents stream e_end)))"
  have s: "?sorted = qsort compare_files (listed stream)"
    by (simp add: read_dirents_eq)
  have sorted: "sorted_wrt (\<lambda>a b. compare_files a b \<le> 0) ?sorted"
    by (rule sorted_qsort_files)
  have lines: "prefix (names_at (length pstr + 2)
             (fst (processDir v env flags pstr stats errno (Opened stream e_end))))
      (map (d_name \<circ> dent) ?sorted)"
    unfolding s by (rule children_lines(1))
  have all_lines: "\<forall>r. snd (processDir v env flags pstr stats errno (Opened stream e_end)) = Inr r \<longrightarrow>
        names_at (length pstr + 2)
          (fst (processDir v env flags pstr stats errno (Opened stream e_end)))
        = map (d_name \<circ> dent) ?sorted"
    unfolding s using children_lines(2) by blast
  have cmp: "\<forall>a b c. dirent_compare b a = - dirent_compare a b
         \<and> (dirent_compare a b \<le> 0 \<and> dirent_compare b c \<le> 0 \<longrightarrow> dirent_compare a c \<le> 0)
         \<and> (dirent_compare a b = 0 \<longrightarrow> d_name a = d_name b)"
    using dirent_compare_swap dirent_compare_trans dirent_compare_eq_0 by blast
  show ?thesis
    using lines all_lines mset_qsort [of compare_files "fst (snd (read_dirents stream e_end))"]
      directories_first [OF sorted] names_sorted [OF sorted] strcmp_lexord cmp
    by (intro conjI) blast+
qed

text \<open>
  On the small tree the directory \<^verbatim>\<open>b\<close> comes before the file \<^verbatim>\<open>a.txt\<close>. Two entries
  of the same name and of different types, none a directory, compare equal.
\<close>

theorem children_order_witness:
  "snd (processDir Src_dirtree sample_env F_TREE [] zero_summary 0 (Opened sample_entries 0))
     = Inr (\<lparr>dirs = 1, files = 2, links = 0, fifos = 0, socks = 0,
              size_total = 30, blocks = 24\<rparr>, 0)
   \<and> names_at 2 (fst (processDir Src_dirtree sample_env F_TREE [] zero_summary 0
                         (Opened sample_entries 0)))
     = [''b'', ''a.txt'']
   \<and> dirent_compare \<lparr>d_name = ''b'', d_type = 4\<rparr> \<lparr>d_name = ''a.txt'', d_type = 8\<rparr> \<le> 0
   \<and> dirent_compare \<lparr>d_name = ''a.txt'', d_type = 8\<rparr> \<lparr>d_name = ''c'', d_type = 8\<rparr> \<le> 0
   \<and> dirent_compare \<lparr>d_name = ''c'', d_type = 8\<rparr> \<lparr>d_name = ''c'', d_type = 10\<rparr> = 0"
proof -
  have c1: "dirent_compare \<lparr>d_name = ''b'', d_type = 4\<rparr> \<lparr>d_name = ''a.txt'', d_type = 8\<rparr> \<le> 0"
    by (simp add: dirent_compare_def DT_DIR_def)
  have c2: "dirent_compare \<lparr>d_name = ''a.txt'', d_type = 8\<rparr> \<lparr>d_name = ''c'', d_type = 8\<rparr> \<le> 0"
    by (simp add: dirent_compare_def DT_DIR_def)
  have c3: "dirent_compare \<lparr>d_name = ''c'', d_type = 8\<rparr> \<lparr>d_name = ''c'', d_type = 10\<rparr> = 0"
    by (simp add: dirent_compare_def DT_DIR_def)
  have run: "snd (processDir Src_dirtree sample_env F_TREE [] zero_summary 0
        (Opened sample_entries 0))
     = Inr (\<lparr>dirs = 1, files = 2, links = 0, fifos = 0, socks = 0,
              size_total = 30, blocks = 24\<rparr>, 0)"
    by (simp only: sample_run snd_conv)
  have "names_at (length ([] :: string) + 2)
          (fst (processDir Src_dirtree sample_env F_TREE [] zero_summary 0
                 (Opened sample_entries 0)))
        = map (d_name \<circ> dent) (qsort compare_files (fst (snd (read_dirents sample_entries 0))))"
    using children_order [of "[]" Src_dirtree sample_env F_TREE zero_summary 0 sample_entries 0,
        THEN conjunct2, THEN conjunct1] run
    by blast
  then have "names_at 2 (fst (processDir Src_dirtree sample_env F_TREE [] zero_summary 0
                         (Opened sample_entries 0))) = [''b'', ''a.txt'']"
    by (simp only: sample_sorted list.size add_0)
  with run c1 c2 c3 show ?thesis
    by (intro conjI)
qed

section \<open>No entry is dropped\<close>

lemma open_failure_written:
  "e \<noteq> 0 \<Longrightarrow>
   fst (processDir v env flags pstr stats errno (Open_fails e)) = fst (print_errno pstr flags e)
   \<and> fst (print_errno pstr flags e) \<noteq> []"
  by (cases v; cases "print_errno pstr flags e"; cases "snd (print_errno pstr flags e)")
    (auto simp: yield_def print_errno_def Let_def emit_def panic_def split: if_splits)

text \<open>
  Claim C6. The loop that reads a directory returns every entry of the stream other than
  \<^verbatim>\<open>.\<close> and \<^verbatim>\<open>..\<close>. A call of \<^verbatim>\<open>processDir\<close> on a directory that opens either ends in
  a fault (the process exits or crashes), or it returns, and then every entry that was
  read has its line among the events of the call: the names on the lines of the entries
  of the directory are, with multiplicity, the names of the entries read. A read error
  of \<^verbatim>\<open>readdir\<close> (it ends the enumeration) is reported by \<^verbatim>\<open>perror\<close> on the error
  stream whenever the enumeration is reached, that is unless \<^verbatim>\<open>print_errno\<close> ended the
  process before it. A directory that does not open has the output of \<^verbatim>\<open>print_errno\<close>
  for its error, which is never empty. (The program does not test the result of
  \<^verbatim>\<open>lstat\<close>; a failed \<^verbatim>\<open>lstat\<close> is not a failure of the listing and writes nothing.)
\<close>

theorem listed_entries_are_rendered:
  "processDir v env flags pstr stats errno (Opened stream e_end) = (evs, res) \<Longrightarrow>
     fst (snd (read_dirents stream e_end)) = listed stream
     \<and> (\<forall>r. res = Inr r \<longrightarrow>
          mset (names_at (length pstr + 2) evs)
          = mset (map (d_name \<circ> dent) (fst (snd (read_dirents stream e_end)))))
     \<and> ((errno = 0 \<or> errno = EACCES \<or> errno = ENOENT \<or> errno = ENOTDIR) \<and> e_end \<noteq> 0 \<longrightarrow>
          Perror e_end \<in> set evs \<and> channel_of (Perror e_end) = Stderr)
     \<and> (\<forall>e. e \<noteq> 0 \<longrightarrow>
          fst (processDir v env flags pstr stats errno (Open_fails e))
            = fst (print_errno pstr flags e)
          \<and> fst (print_errno pstr flags e) \<noteq> [])"
proof -
  assume run: "processDir v env flags pstr stats errno (Opened stream e_end) = (evs, res)"
  have "mset (names_at (length pstr + 2) evs) = mset (map (d_name \<circ> dent) (listed stream))"
    if "res = Inr r" for r
  proof -
    from run that have "names_at (length pstr + 2) evs
        = map (d_name \<circ> dent) (qsort compare_files (listed stream))"
      using children_lines(2) [of v env flags pstr stats errno stream e_end r] by simp
    then show ?thesis
      by (simp add: mset_qsort)
  qed
  moreover have "Perror e_end \<in> set evs"
    if "errno = 0 \<or> errno = EACCES \<or> errno = ENOENT \<or> errno = ENOTDIR" and "e_end \<noteq> 0"
    using perror_written [OF that, of v env flags pstr stats stream] run by simp
  ultimately show ?thesis
    using open_failure_written [of _ v env flags pstr stats errno]
    by (simp add: read_dirents_eq channel_of_def)
qed

text \<open>
  A directory with \<^verbatim>\<open>.\<close> and the file \<^verbatim>\<open>a.txt\<close> whose enumeration ends with the read
  error 5 (EIO).
\<close>

theorem listed_entries_are_rendered_witness:
  "processDir Src_dirtree sample_env F_TREE [] zero_summary 0 (Opened (take 2 sample_entries) 5)
     = ([Perror 5, Name_column F_TREE [CHR 0x60, CHR ''-''] ''a.txt'', End_of_line],
        Inr (\<lparr>dirs = 0, files = 1, links = 0, fifos = 0, socks = 0,
               size_total = 10, blocks = 8\<rparr>, 5))
   \<and> mset (names_at 2 [Perror 5, Name_column F_TREE [CHR 0x60, CHR ''-''] ''a.txt'', End_of_line])
     = {#''a.txt''#}
   \<and> Perror 5 \<in> set [Perror 5, Name_column F_TREE [CHR 0x60, CHR ''-''] ''a.txt'', End_of_line]"
proof -
  have run: "processDir Src_dirtree sample_env F_TREE [] zero_summary 0
      (Opened (take 2 sample_entries) 5)
     = ([Perror 5, Name_column F_TREE [CHR 0x60, CHR ''-''] ''a.txt'', End_of_line],
        Inr (\<lparr>dirs = 0, files = 1, links = 0, fifos = 0, socks = 0,
               size_total = 10, blocks = 8\<rparr>, 5))"
    by (simp add: sample_entries_def sample_stat_def read_dirents_eq listed_def qsort_def
        gen_tree_shape_def F_TREE_def F_VERBOSE_def Let_def emit_def yield_def update_stats_def
        zero_summary_def S_ISDIR_def S_ISREG_def S_ISLNK_def S_ISFIFO_def S_ISSOCK_def
        S_IFMT_def S_IFDIR_def S_IFREG_def S_IFLNK_def S_IFIFO_def S_IFSOCK_def)
  have "mset (names_at (length ([] :: string) + 2)
          [Perror 5, Name_column F_TREE [CHR 0x60, CHR ''-''] ''a.txt'', End_of_line])
        = mset (map (d_name \<circ> dent) (fst (snd (read_dirents (take 2 sample_entries) 5))))"
    using listed_entries_are_rendered [OF run, THEN conjunct2, THEN conjunct1] by blast
  then have "mset (names_at 2
          [Perror 5, Name_column F_TREE [CHR 0x60, CHR ''-''] ''a.txt'', End_of_line])
        = {#''a.txt''#}"
    by (simp add: sample_entries_def read_dirents_eq listed_def numeral_2_eq_2)
  moreover have "Perror 5 \<in> set [Perror 5, Name_column F_TREE [CHR 0x60, CHR ''-''] ''a.txt'',
      End_of_line]"
    using listed_entries_are_rendered [OF run, THEN conjunct2, THEN conjunct2] by simp
  ultimately show ?thesis
    using run by (intro conjI)
qed

section \<open>Properties of the driver\<close>

lemma driver_append [simp]:
  "roots_of [] = []" "roots_of (a @ b) = roots_of a @ roots_of b"
  "ignored_of [] = []" "ignored_of (a @ b) = ignored_of a @ ignored_of b"
  "summaries_of [] = []" "summaries_of (a @ b) = summaries_of a @ summaries_of b"
  "totals_of [] = []" "totals_of (a @ b) = totals_of a @ totals_of b"
  "sizes_of [] = []" "sizes_of (a @ b) = sizes_of a @ sizes_of b"
  by (simp_all add: roots_of_def ignored_of_def summaries_of_def totals_of_def sizes_of_def)

lemma driver_Cons [simp]:
  "roots_of (ev # evs) = (case ev of Root_name directory \<Rightarrow> [directory] | _ \<Rightarrow> []) @ roots_of evs"
  "ignored_of (ev # evs) = (case ev of Ignored_root arg \<Rightarrow> [arg] | _ \<Rightarrow> []) @ ignored_of evs"
  "summaries_of (ev # evs) =
     (case ev of Root_summary _ dstat \<Rightarrow> [dstat] | _ \<Rightarrow> []) @ summaries_of evs"
  "totals_of (ev # evs) =
     (case ev of Total_counts ndir tstat \<Rightarrow> [(ndir, tstat)] | _ \<Rightarrow> []) @ totals_of evs"
  "sizes_of (ev # evs) = (case ev of Total_sizes tstat \<Rightarrow> [tstat] | _ \<Rightarrow> []) @ sizes_of evs"
  by (simp_all add: roots_of_def ignored_of_def summaries_of_def totals_of_def sizes_of_def)

lemma traversal_and_then:
  "list_all traversal_event (fst m) \<Longrightarrow> (\<And>a. list_all traversal_event (fst (f a))) \<Longrightarrow>
   list_all traversal_event (fst (and_then m f))"
  by (cases m; cases "snd m") auto

lemma traversal_print_errno: "list_all traversal_event (fst (print_errno pstr flags errno))"
  by (simp add: print_errno_def Let_def emit_def panic_def traversal_event_def)

lemma traversal_print_verbose: "list_all traversal_event (fst (print_verbose env st))"
  by (simp add: print_verbose_def emit_def panic_def traversal_event_def split: option.splits)

lemma traversal_processDir:
  "list_all traversal_event (fst (processDir v env flags pstr stats errno dir))"
  "list_all traversal_event (fst (processEntries v env flags pstr stats errno entries))"
proof (induction v env flags pstr stats errno dir and v env flags pstr stats errno entries
    rule: processDir_processEntries.induct)
  case (1 v env flags pstr stats errno e)
  show ?case
    by (cases v) (auto intro!: traversal_and_then simp: traversal_print_errno yield_def)
next
  case (2 v env flags pstr stats errno stream e_end)
  have "list_all traversal_event
     (fst (processEntries v env flags pstr stats e_end (qsort compare_files (listed stream))))"
    using 2 [OF refl] by (simp add: read_dirents_eq)
  then have "list_all traversal_event (fst (let r = read_dirents stream e_end in
            and_then (emit (fst r))
              (\<lambda>_. processEntries v env flags pstr stats (snd (snd r))
                     (qsort compare_files (fst (snd r))))))"
    by (auto simp: read_dirents_eq traversal_event_def)
  then show ?case
    unfolding processDir.simps
    by (intro traversal_and_then) (auto simp: traversal_print_errno yield_def)
next
  case (3 v env flags pstr stats errno)
  show ?case by (simp add: yield_def)
next
  case (4 v env flags pstr stats errno entry entries)
  let ?next = "gen_tree_shape (entries = []) flags pstr"
  let ?errno1 = "if lstat_errno entry \<noteq> 0 then lstat_errno entry else errno"
  let ?descend = "if S_ISDIR (st_mode (i_stat entry))
                   then processDir v env flags ?next (update_stats stats (i_stat entry))
                          ?errno1 (subdir entry)
                   else yield (update_stats stats (i_stat entry), ?errno1)"
  have sub: "list_all traversal_event (fst ?descend)"
    using "4.IH"(1) [OF refl refl] by (simp add: yield_def)
  have rest: "list_all traversal_event (fst (processEntries v env flags pstr stats' errno' entries))"
    for stats' errno'
    using "4.IH"(2) [OF refl refl] by simp
  show ?case
    unfolding processEntries.simps Let_def
    by (intro traversal_and_then sub)
      (auto simp: emit_def yield_def traversal_event_def traversal_print_verbose rest
        case_prod_unfold)
qed

lemma traversal_processRoot:
  "list_all traversal_event (fst (processRoot v env flags dn stats errno))"
  by (simp add: processRoot_def traversal_processDir)

lemma traversal_no_driver_events:
  assumes "list_all traversal_event evs"
  shows "roots_of evs = []" "ignored_of evs = []" "summaries_of evs = []" "totals_of evs = []"
    "sizes_of evs = []"
  using assms
  by (induction evs; auto simp: traversal_event_def split: event.splits)+

lemma parse_args_plain:
  assumes "\<forall>arg \<in> set args. take 1 arg = ''-'' \<longrightarrow> arg = ''-t'' \<or> arg = ''-s'' \<or> arg = ''-v''"
    and "length directories \<le> MAX_DIR"
  shows "parse_args argv0 args flags directories =
           (map Ignored_root (drop (MAX_DIR - length directories) (positional args)),
            Inr (foldl (\<lambda>fl arg. fl OR flag_bit arg) flags (filter (\<lambda>arg. take 1 arg = ''-'') args),
                 directories @ take (MAX_DIR - length directories) (positional args)))"
  using assms
proof (induction args arbitrary: flags directories)
  case Nil
  show ?case by (simp add: positional_def yield_def)
next
  case (Cons arg args)
  show ?case
  proof (cases "take 1 arg = ''-''")
    case True
    with Cons.prems have "arg = ''-t'' \<or> arg = ''-s'' \<or> arg = ''-v''" by simp
    moreover have "parse_args argv0 args fl directories =
           (map Ignored_root (drop (MAX_DIR - length directories) (positional args)),
            Inr (foldl (\<lambda>fl arg. fl OR flag_bit arg) fl (filter (\<lambda>arg. take 1 arg = ''-'') args),
                 directories @ take (MAX_DIR - length directories) (positional args)))" for fl
      using Cons.IH [of directories fl] Cons.prems by simp
    ultimately show ?thesis
      using True by (auto simp: positional_def flag_bit_def)
  next
    case False
    show ?thesis
    proof (cases "length directories < MAX_DIR")
      case True
      then obtain k where k: "MAX_DIR - length directories = Suc k"
        by (cases "MAX_DIR - length directories") auto
      then have k': "MAX_DIR - length (directories @ [arg]) = k" by simp
      from True have "length (directories @ [arg]) \<le> MAX_DIR" by simp
      from Cons.IH [OF _ this, of flags] Cons.prems(1) have
        "parse_args argv0 args flags (directories @ [arg]) =
           (map Ignored_root (drop k (positional args)),
            Inr (foldl (\<lambda>fl arg. fl OR flag_bit arg) flags (filter (\<lambda>arg. take 1 arg = ''-'') args),
                 (directories @ [arg]) @ take k (positional args)))"
        unfolding k' by auto
      with False True k show ?thesis
        by (simp add: positional_def)
    next
      case full: False
      with Cons.prems(2) have z: "MAX_DIR - length directories = 0" by simp
      from Cons.IH [OF _ Cons.prems(2), of flags] Cons.prems(1) have
        "parse_args argv0 args flags directories =
           (map Ignored_root (positional args),
            Inr (foldl (\<lambda>fl arg. fl OR flag_bit arg) flags (filter (\<lambda>arg. take 1 arg = ''-'') args),
                 directories))"
        unfolding z by auto
      with False full z show ?thesis
        by (simp add: positional_def)
    qed
  qed
qed

lemma parse_args_events:
  "roots_of (fst (parse_args argv0 args flags directories)) = []
   \<and> summaries_of (fst (parse_args argv0 args flags directories)) = []
   \<and> totals_of (fst (parse_args argv0 args flags directories)) = []
   \<and> sizes_of (fst (parse_args argv0 args flags directories)) = []"
  by (induction argv0 args flags directories rule: parse_args.induct)
    (auto simp: yield_def syntax_exit_def split: option.splits)

lemma add_summary_fields [simp]:
  "files (add_summary t d) = files t + files d"
  "dirs (add_summary t d) = dirs t + dirs d"
  "links (add_summary t d) = links t + links d"
  "fifos (add_summary t d) = fifos t + fifos d"
  "socks (add_summary t d) = socks t + socks d"
  "size_total (add_summary t d) = size_total t + size_total d"
  "blocks (add_summary t d) = blocks t + blocks d"
  by (simp_all add: add_summary_def)

lemma foldl_add_summary_fields:
  "files (foldl add_summary t ds) = files t + sum_list (map files ds)"
  "dirs (foldl add_summary t ds) = dirs t + sum_list (map dirs ds)"
  "links (foldl add_summary t ds) = links t + sum_list (map links ds)"
  "fifos (foldl add_summary t ds) = fifos t + sum_list (map fifos ds)"
  "socks (foldl add_summary t ds) = socks t + sum_list (map socks ds)"
  "size_total (foldl add_summary t ds) = size_total t + sum_list (map size_total ds)"
  "blocks (foldl add_summary t ds) = blocks t + sum_list (map blocks ds)"
  by (induction ds arbitrary: t; simp add: add.assoc)+

lemma process_roots_Cons:
  "process_roots v env flags (d # ds) tstat errno =
     (let pre = (if flags AND F_SUMMARY \<noteq> 0 then [Header_line flags, Rule_line] else []) @
                [Root_name d];
          r = processRoot v env flags d zero_summary errno
      in case snd r of
           Inl x \<Rightarrow> (pre @ fst r, Inl x)
         | Inr (dstat, errno') \<Rightarrow>
             if flags AND F_SUMMARY \<noteq> 0
             then (pre @ fst r @ [Rule_line, Root_summary flags dstat] @
                     fst (process_roots v env flags ds (add_summary tstat dstat) errno'),
                   snd (process_roots v env flags ds (add_summary tstat dstat) errno'))
             else (pre @ fst r @ fst (process_roots v env flags ds tstat errno'),
                   snd (process_roots v env flags ds tstat errno')))"
  by (cases "processRoot v env flags d zero_summary errno";
      cases "snd (processRoot v env flags d zero_summary errno)")
    (auto simp: Let_def)

lemma process_roots_events:
  "prefix (roots_of (fst (process_roots v env flags directories tstat errno))) directories
   \<and> ignored_of (fst (process_roots v env flags directories tstat errno)) = []
   \<and> totals_of (fst (process_roots v env flags directories tstat errno)) = []
   \<and> sizes_of (fst (process_roots v env flags directories tstat errno)) = []"
proof (induction directories arbitrary: tstat errno)
  case Nil
  show ?case by (simp add: yield_def)
next
  case (Cons d ds)
  note root = traversal_no_driver_events
    [OF traversal_processRoot [of v env flags d zero_summary errno]]
  show ?case
    unfolding process_roots_Cons Let_def
    using root Cons by (auto split: sum.splits)
qed

lemma process_roots_result:
  assumes "process_roots v env flags directories tstat errno = (evs, Inr (tstat', errno'))"
  shows "roots_of evs = directories
    \<and> (flags AND F_SUMMARY \<noteq> 0 \<longrightarrow> length (summaries_of evs) = length directories
          \<and> tstat' = foldl add_summary tstat (summaries_of evs))"
  using assms
proof (induction directories arbitrary: tstat errno evs)
  case Nil
  then show ?case by (simp add: yield_def)
next
  case (Cons d ds)
  note root = traversal_no_driver_events
    [OF traversal_processRoot [of v env flags d zero_summary errno]]
  obtain devs dres where r: "processRoot v env flags d zero_summary errno = (devs, dres)"
    by (cases "processRoot v env flags d zero_summary errno")
  with Cons.prems obtain dstat errno1 where dres: "dres = Inr (dstat, errno1)"
    unfolding process_roots_Cons Let_def by (cases dres) auto
  show ?case
  proof (cases "flags AND F_SUMMARY \<noteq> 0")
    case True
    let ?rest = "process_roots v env flags ds (add_summary tstat dstat) errno1"
    from Cons.prems r dres True have rest: "?rest = (fst ?rest, Inr (tstat', errno'))"
      and evs: "evs = [Header_line flags, Rule_line, Root_name d] @ devs @
          [Rule_line, Root_summary flags dstat] @ fst ?rest"
      unfolding process_roots_Cons Let_def by (auto intro: prod_eqI)
    from Cons.IH [OF rest] True root r show ?thesis
      by (simp add: evs)
  next
    case False
    let ?rest = "process_roots v env flags ds tstat errno1"
    from Cons.prems r dres False have rest: "?rest = (fst ?rest, Inr (tstat', errno'))"
      and evs: "evs = [Root_name d] @ devs @ fst ?rest"
      unfolding process_roots_Cons Let_def by (auto intro: prod_eqI)
    from Cons.IH [OF rest] False root r show ?thesis
      by (simp add: evs)
  qed
qed

lemma main_parsed:
  assumes "parse_args argv0 args 0 [] = (w, Inr (flags, roots))"
  shows "main v env argv0 args =
     (let directories = (if roots = [] then [''.''] else roots);
          r = process_roots v env flags directories zero_summary 0
      in case snd r of
           Inl x \<Rightarrow> (w @ fst r, Inl x)
         | Inr (tstat, errno) \<Rightarrow>
             (w @ fst r @ totals_events flags (int (length directories)) tstat, Inr EXIT_SUCCESS))"
  using assms
  by (cases "process_roots v env flags (if roots = [] then [''.''] else roots) zero_summary 0";
      cases "snd (process_roots v env flags (if roots = [] then [''.''] else roots) zero_summary 0)")
    (auto simp: main_def Let_def yield_def totals_events_def)

text \<open>
  Claim C8. For every run with the summary flag that reaches the end of \<^verbatim>\<open>main\<close>: one
  summary is printed per root; the grand total is printed exactly when \<^verbatim>\<open>ndir\<close>, the
  number of roots traversed, is more than one (its second part, the sizes, when the
  verbose flag is set as well), and then only once; and every counter and both totals
  of the grand total are the sums of the fields of the per-root summaries that were
  printed, the sums being those of 32-bit and 64-bit words.
\<close>

theorem grand_total_is_sum:
  "parse_args argv0 args 0 [] = (warnings, Inr (flags, roots)) \<Longrightarrow>
   flags AND F_SUMMARY \<noteq> 0 \<Longrightarrow>
   main v env argv0 args = (evs, Inr status) \<Longrightarrow>
   (let ndir = length (if roots = [] then [''.''] else roots);
        tstat = foldl add_summary zero_summary (summaries_of evs)
    in length (summaries_of evs) = ndir
       \<and> totals_of evs = (if 1 < ndir then [(int ndir, tstat)] else [])
       \<and> sizes_of evs = (if 1 < ndir \<and> flags AND F_VERBOSE \<noteq> 0 then [tstat] else [])
       \<and> files tstat = sum_list (map files (summaries_of evs))
       \<and> dirs tstat = sum_list (map dirs (summaries_of evs))
       \<and> links tstat = sum_list (map links (summaries_of evs))
       \<and> fifos tstat = sum_list (map fifos (summaries_of evs))
       \<and> socks tstat = sum_list (map socks (summaries_of evs))
       \<and> size_total tstat = sum_list (map size_total (summaries_of evs))
       \<and> blocks tstat = sum_list (map blocks (summaries_of evs)))"
proof -
  assume parse: "parse_args argv0 args 0 [] = (warnings, Inr (flags, roots))"
    and summary: "flags AND F_SUMMARY \<noteq> 0"
    and run: "main v env argv0 args = (evs, Inr status)"
  let ?directories = "if roots = [] then [''.''] else roots"
  let ?r = "process_roots v env flags ?directories zero_summary 0"
  from run obtain tstat errno where r: "snd ?r = Inr (tstat, errno)"
    and evs: "evs = warnings @ fst ?r @ totals_events flags (int (length ?directories)) tstat"
    unfolding main_parsed [OF parse] Let_def by (cases "snd ?r") auto
  from r have "?r = (fst ?r, Inr (tstat, errno))"
    by (auto intro: prod_eqI)
  from process_roots_result [OF this] summary
  have len: "length (summaries_of (fst ?r)) = length ?directories"
    and tstat: "tstat = foldl add_summary zero_summary (summaries_of (fst ?r))"
    by simp_all
  from parse_args_events [of argv0 args 0 "[]"] parse
  have w: "summaries_of warnings = []" "totals_of warnings = []" "sizes_of warnings = []"
    by simp_all
  from process_roots_events [of v env flags ?directories zero_summary 0]
  have p: "totals_of (fst ?r) = []" "sizes_of (fst ?r) = []"
    by simp_all
  have sums: "summaries_of evs = summaries_of (fst ?r)"
    by (simp add: evs w totals_events_def)
  have totals: "totals_of evs = (if 1 < length ?directories
      then [(int (length ?directories), tstat)] else [])"
    using summary by (simp add: evs w p totals_events_def)
  have sizes: "sizes_of evs = (if 1 < length ?directories \<and> flags AND F_VERBOSE \<noteq> 0
      then [tstat] else [])"
    using summary by (simp add: evs w p totals_events_def)
  show ?thesis
    unfolding Let_def sums
    using len totals sizes
    by (simp add: tstat [symmetric]) (simp add: tstat foldl_add_summary_fields zero_summary_def)
qed

text \<open>The small tree given twice as a root, with \<^verbatim>\<open>-s\<close>.\<close>

lemma sample_main:
  "main Src_src_dirtree sample_env ''dirtree'' [''-s'', ''r'', ''r''] =
     ([Header_line 2, Rule_line, Root_name ''r'',
       Name_column 2 ''  '' ''b'', End_of_line, Name_column 2 ''    '' ''c'', End_of_line,
       Name_column 2 ''  '' ''a.txt'', End_of_line, Rule_line,
       Root_summary 2 \<lparr>dirs = 1, files = 2, links = 0, fifos = 0, socks = 0,
                        size_total = 30, blocks = 24\<rparr>,
       Header_line 2, Rule_line, Root_name ''r'',
       Name_column 2 ''  '' ''b'', End_of_line, Name_column 2 ''    '' ''c'', End_of_line,
       Name_column 2 ''  '' ''a.txt'', End_of_line, Rule_line,
       Root_summary 2 \<lparr>dirs = 1, files = 2, links = 0, fifos = 0, socks = 0,
                        size_total = 30, blocks = 24\<rparr>,
       Total_counts 2 \<lparr>dirs = 2, files = 4, links = 0, fifos = 0, socks = 0,
                        size_total = 60, blocks = 48\<rparr>],
      Inr 0)"
  by code_simp

lemma sample_parse:
  "parse_args ''dirtree'' [''-s'', ''r'', ''r''] 0 [] = ([], Inr (2, [''r'', ''r'']))"
  by (simp add: F_SUMMARY_def MAX_DIR_def yield_def)

theorem grand_total_is_sum_witness:
  "parse_args ''dirtree'' [''-s'', ''r'', ''r''] 0 [] = ([], Inr (2, [''r'', ''r'']))
   \<and> (2 :: 32 word) AND F_SUMMARY \<noteq> 0
   \<and> snd (main Src_src_dirtree sample_env ''dirtree'' [''-s'', ''r'', ''r'']) = Inr 0
   \<and> length (summaries_of (fst (main Src_src_dirtree sample_env ''dirtree'' [''-s'', ''r'', ''r''])))
       = 2
   \<and> totals_of (fst (main Src_src_dirtree sample_env ''dirtree'' [''-s'', ''r'', ''r'']))
       = [(2, \<lparr>dirs = 2, files = 4, links = 0, fifos = 0, socks = 0,
                size_total = 60, blocks = 48\<rparr>)]"
proof -
  let ?run = "main Src_src_dirtree sample_env ''dirtree'' [''-s'', ''r'', ''r'']"
  have summary: "(2 :: 32 word) AND F_SUMMARY \<noteq> 0"
    by (simp add: F_SUMMARY_def)
  have ok: "snd ?run = Inr 0"
    by (simp only: sample_main snd_conv)
  then have run: "?run = (fst ?run, Inr 0)"
    by (auto intro: prod_eqI)
  have sums: "summaries_of (fst ?run) =
      [\<lparr>dirs = 1, files = 2, links = 0, fifos = 0, socks = 0, size_total = 30, blocks = 24\<rparr>,
       \<lparr>dirs = 1, files = 2, links = 0, fifos = 0, socks = 0, size_total = 30, blocks = 24\<rparr>]"
    by (simp only: sample_main fst_conv) simp
  from grand_total_is_sum [OF sample_parse summary run]
  have "length (summaries_of (fst ?run)) = 2
      \<and> totals_of (fst ?run) = [(2, foldl add_summary zero_summary (summaries_of (fst ?run)))]"
    by (simp add: Let_def)
  then have "length (summaries_of (fst ?run)) = 2
      \<and> totals_of (fst ?run) = [(2, \<lparr>dirs = 2, files = 4, links = 0, fifos = 0, socks = 0,
                size_total = 60, blocks = 48\<rparr>)]"
    by (simp add: sums add_summary_def zero_summary_def)
  with sample_parse summary ok show ?thesis
    by (intro conjI) simp_all
qed

lemma positional_dashes: "positional (filter (\<lambda>arg. take 1 arg = ''-'') args) = []"
  by (induction args) (auto simp: positional_def)

lemma positional_no_dash: "arg \<in> set (take n (positional args)) \<Longrightarrow> take 1 arg \<noteq> ''-''"
  using set_take_subset [of n "positional args"] by (auto simp: positional_def)

lemma positional_idem: "positional (take n (positional args)) = take n (positional args)"
  unfolding positional_def [of "take n (positional args)"]
  using positional_no_dash [of _ n args] by (simp add: filter_id_conv)

lemma dashes_of_positional:
  "filter (\<lambda>arg. take 1 arg = ''-'') (take n (positional args)) = []"
  using positional_no_dash [of _ n args] by (simp add: filter_empty_conv)

lemma ignored_of_warnings [simp]: "ignored_of (map Ignored_root xs) = xs"
  by (induction xs) auto

lemma roots_of_warnings [simp]: "roots_of (map Ignored_root xs) = []"
  by (induction xs) auto

lemma totals_events_driver [simp]:
  "ignored_of (totals_events flags ndir tstat) = []"
  "roots_of (totals_events flags ndir tstat) = []"
  by (simp_all add: totals_events_def)

text \<open>
  Claim C9. For a command line with more than 64 root paths and no option other than
  \<^verbatim>\<open>-t\<close>, \<^verbatim>\<open>-s\<close> and \<^verbatim>\<open>-v\<close> (any other option ends the run in \<^verbatim>\<open>syntax\<close>): the parsing
  does not end the run; it keeps the first 64 root paths and writes one warning, on the
  standard output, for each of the others; the run is the warnings followed by the run
  on the command line without the excess roots, with the same outcome; the roots
  traversed, in the order of the root names printed, are the first 64 when the run
  reaches its end, and a prefix of them when the traversal is aborted.
\<close>

theorem excess_roots_are_ignored:
  "\<forall>arg \<in> set args. take 1 arg = ''-'' \<longrightarrow> arg = ''-t'' \<or> arg = ''-s'' \<or> arg = ''-v'' \<Longrightarrow>
   MAX_DIR < length (positional args) \<Longrightarrow>
   MAX_DIR = 64
   \<and> (\<exists>flags. parse_args argv0 args 0 [] =
         (map Ignored_root (drop MAX_DIR (positional args)),
          Inr (flags, take MAX_DIR (positional args))))
   \<and> main v env argv0 args =
       (map Ignored_root (drop MAX_DIR (positional args)) @
          fst (main v env argv0
                 (filter (\<lambda>arg. take 1 arg = ''-'') args @ take MAX_DIR (positional args))),
        snd (main v env argv0
               (filter (\<lambda>arg. take 1 arg = ''-'') args @ take MAX_DIR (positional args))))
   \<and> ignored_of (fst (main v env argv0 args)) = drop MAX_DIR (positional args)
   \<and> prefix (roots_of (fst (main v env argv0 args))) (take MAX_DIR (positional args))
   \<and> (\<forall>status. snd (main v env argv0 args) = Inr status \<longrightarrow>
         roots_of (fst (main v env argv0 args)) = take MAX_DIR (positional args))
   \<and> (\<forall>arg. channel_of (Ignored_root arg) = Stdout)"
proof -
  assume plain: "\<forall>arg \<in> set args. take 1 arg = ''-'' \<longrightarrow> arg = ''-t'' \<or> arg = ''-s'' \<or> arg = ''-v''"
    and excess: "MAX_DIR < length (positional args)"
  let ?pos = "positional args"
  let ?dashes = "filter (\<lambda>arg. take 1 arg = ''-'') args"
  let ?args' = "?dashes @ take MAX_DIR ?pos"
  let ?flags = "foldl (\<lambda>fl arg. fl OR flag_bit arg) 0 ?dashes"
  let ?w = "map Ignored_root (drop MAX_DIR ?pos)"
  have parse: "parse_args argv0 args 0 [] = (?w, Inr (?flags, take MAX_DIR ?pos))"
    using parse_args_plain [OF plain, of "[]" argv0 0] by simp
  have plain': "\<forall>arg \<in> set ?args'. take 1 arg = ''-'' \<longrightarrow> arg = ''-t'' \<or> arg = ''-s'' \<or> arg = ''-v''"
    using plain set_take_subset [of MAX_DIR ?pos] by (auto simp: positional_def)
  have pos': "positional ?args' = take MAX_DIR ?pos"
    using positional_dashes [of args] positional_idem [of MAX_DIR args]
    by (simp add: positional_def)
  have dashes': "filter (\<lambda>arg. take 1 arg = ''-'') ?args' = ?dashes"
    using dashes_of_positional [of MAX_DIR args] by simp
  have parse': "parse_args argv0 ?args' 0 [] = ([], Inr (?flags, take MAX_DIR ?pos))"
    using parse_args_plain [OF plain', of "[]" argv0 0] unfolding pos' dashes' by simp
  from excess have nonempty: "take MAX_DIR ?pos \<noteq> []"
    by (auto simp: MAX_DIR_def)
  let ?r = "process_roots v env ?flags (take MAX_DIR ?pos) zero_summary 0"
  have main: "main v env argv0 args = (?w @ fst (main v env argv0 ?args'), snd (main v env argv0 ?args'))"
    unfolding main_parsed [OF parse] main_parsed [OF parse'] Let_def
    by (cases "snd (process_roots v env ?flags (if take MAX_DIR ?pos = [] then [''.''] else take MAX_DIR ?pos) zero_summary 0)") auto
  have fst_main: "fst (main v env argv0 args) =
      ?w @ fst ?r @ (case snd ?r of Inl x \<Rightarrow> []
         | Inr (tstat, errno) \<Rightarrow> totals_events ?flags (int (length (take MAX_DIR ?pos))) tstat)"
    unfolding main_parsed [OF parse] Let_def using nonempty
    by (cases "snd ?r") auto
  have snd_main: "snd (main v env argv0 args) = Inr status \<Longrightarrow> \<exists>t e. snd ?r = Inr (t, e)" for status
    unfolding main_parsed [OF parse] Let_def using nonempty
    by (cases "snd ?r") auto
  note events = process_roots_events [of v env ?flags "take MAX_DIR ?pos" zero_summary 0]
  have ignored: "ignored_of (fst (main v env argv0 args)) = drop MAX_DIR ?pos"
    unfolding fst_main using events by (cases "snd ?r") auto
  have roots: "roots_of (fst (main v env argv0 args)) = roots_of (fst ?r)"
    unfolding fst_main by (cases "snd ?r") auto
  have all_roots: "roots_of (fst (main v env argv0 args)) = take MAX_DIR ?pos"
    if "snd (main v env argv0 args) = Inr status" for status
  proof -
    from snd_main [OF that] obtain t e where "snd ?r = Inr (t, e)" by blast
    then have "?r = (fst ?r, Inr (t, e))" by (auto intro: prod_eqI)
    from process_roots_result [OF this] roots show ?thesis by simp
  qed
  show ?thesis
    using parse main ignored roots events all_roots
    by (auto simp: MAX_DIR_def channel_of_def)
qed

text \<open>The option \<^verbatim>\<open>-s\<close> and 65 times the root \<^verbatim>\<open>r\<close>.\<close>

theorem excess_roots_are_ignored_witness:
  "MAX_DIR < length (positional (''-s'' # replicate 65 ''r''))
   \<and> ignored_of (fst (main Src_src_dirtree sample_env ''dirtree'' (''-s'' # replicate 65 ''r'')))
       = [''r'']
   \<and> prefix (roots_of (fst (main Src_src_dirtree sample_env ''dirtree''
                              (''-s'' # replicate 65 ''r''))))
       (replicate 64 ''r'')"
proof -
  let ?args = "''-s'' # replicate 65 ''r''"
  have plain: "\<forall>arg \<in> set ?args. take 1 arg = ''-'' \<longrightarrow> arg = ''-t'' \<or> arg = ''-s'' \<or> arg = ''-v''"
    by simp
  have pos: "positional ?args = replicate 65 ''r''"
    by (simp add: positional_def)
  have excess: "MAX_DIR < length (positional ?args)"
    by (simp add: pos MAX_DIR_def)
  note at_args = excess_roots_are_ignored [OF plain excess, of "''dirtree''" Src_src_dirtree sample_env]
  have "ignored_of (fst (main Src_src_dirtree sample_env ''dirtree'' ?args))
      = drop MAX_DIR (positional ?args)"
    using at_args by blast
  then have ignored: "ignored_of (fst (main Src_src_dirtree sample_env ''dirtree'' ?args)) = [''r'']"
    by (simp add: pos MAX_DIR_def)
  have "prefix (roots_of (fst (main Src_src_dirtree sample_env ''dirtree'' ?args)))
      (take MAX_DIR (positional ?args))"
    using at_args by blast
  then have "prefix (roots_of (fst (main Src_src_dirtree sample_env ''dirtree'' ?args)))
      (replicate 64 ''r'')"
    by (simp add: pos MAX_DIR_def)
  with excess ignored show ?thesis
    by (intro conjI)
qed

end
